theory Spec2Isabelle
  imports
    Complex_Main
    "HOL-Library.Multiset"
    "HOL-Library.Product_Lexorder"
    "HOL-Library.List_Lexorder"
    "HOL-Library.Char_ord"
begin

section \<open>Data model\<close>

text \<open>
  A naive \<^verbatim>\<open>datetime\<close> object. The calendar date is kept as its proleptic Gregorian
  ordinal (what \<^verbatim>\<open>date.toordinal()\<close> returns), which is monotone in (year, month, day),
  so that comparison, \<^verbatim>\<open>replace(hour=.., minute=.., ..)\<close>, \<^verbatim>\<open>.date()\<close> and
  \<^verbatim>\<open>+ timedelta(days=1)\<close> are the operations the scripts perform on it.
\<close>

record datetime =
  ordinal :: nat
  hour :: nat
  minute :: nat
  second :: nat
  microsecond :: nat

text \<open>
  The exceptions the modelled functions can raise. The first two are both Python's
  \<^verbatim>\<open>ValueError\<close>: the one raised by \<^verbatim>\<open>get_period_start\<close> (with the granularity) and the one
  raised by \<^verbatim>\<open>int(..)\<close> (with the offending literal). \<^verbatim>\<open>MaxWorkersError\<close> is the
  \<^verbatim>\<open>ValueError\<close> of \<^verbatim>\<open>ThreadPoolExecutor(max_workers=0)\<close>.
\<close>

datatype error =
    InvalidGranularity string
  | InvalidLiteral string
  | MaxWorkersError
  | OverflowError
  | ZeroDivisionError
  | FileNotFoundError string

text \<open>
  The functions of the Python standard library that the scripts call are parameters of
  the model: \<^verbatim>\<open>datetime.strptime(s, '%Y-%m-%d %H:%M:%S')\<close> (\<open>None\<close> when it raises
  \<^verbatim>\<open>ValueError\<close>), \<^verbatim>\<open>dt.strftime('%Y-%m-%d %H:%M:%S')\<close>, \<^verbatim>\<open>date.strftime('%Y-%m-%d')\<close> of the
  date with a given ordinal, and \<^verbatim>\<open>int(s)\<close> (\<open>None\<close> when it raises \<^verbatim>\<open>ValueError\<close>).
  For \<^verbatim>\<open>csv.reader\<close>, which reads at least one physical line for a record and goes on into
  the following lines while a quoted field is open: \<open>csv_extra\<close> is the number of further
  lines that the record starting at the head of the lines still to be read takes in, and
  \<open>csv_fields\<close> is the row parsed from the lines of one record.
\<close>

record pylib =
  strptime :: "string \<Rightarrow> datetime option"
  strftime :: "datetime \<Rightarrow> string"
  strftime_date :: "nat \<Rightarrow> string"
  int_of_str :: "string \<Rightarrow> int option"
  csv_extra :: "string list \<Rightarrow> nat"
  csv_fields :: "string list \<Rightarrow> string list"

text \<open>
  A file is the sequence of its physical lines, as iterating over the file object or
  \<^verbatim>\<open>next(f)\<close> gives them; the file system maps a path to the file there, \<open>None\<close> when
  \<^verbatim>\<open>os.path.exists\<close> is false. A row is what \<^verbatim>\<open>csv.reader\<close> yields for one record.
\<close>

type_synonym row = "string list"
type_synonym filesystem = "string \<rightharpoonup> string list"

text \<open>
  The rows that iterating over \<^verbatim>\<open>csv.reader(f)\<close> yields when the lines still to be read from
  \<open>f\<close> are the given ones.
\<close>

fun csv_reader :: "pylib \<Rightarrow> string list \<Rightarrow> row list" where
  "csv_reader L [] = []"
| "csv_reader L (l # ls) =
     csv_fields L (l # take (csv_extra L (l # ls)) ls)
       # csv_reader L (drop (csv_extra L (l # ls)) ls)"

text \<open>
  An aggregation key is the tuple \<^verbatim>\<open>(period_str, *dim_values)\<close>. A table is the
  \<^verbatim>\<open>defaultdict(lambda: [0] * 9)\<close>, kept as its items in insertion order; two tables are the
  same dictionary when \<^const>\<open>map_of\<close> agrees on them.
\<close>

type_synonym key = "string list"
type_synonym table = "(key \<times> int list) list"

datatype 'a step = Continue | Emit 'a | Raise error

record parsed =
  timestamp :: string
  user :: string
  app :: string
  metrics :: "int list"

datatype cell = Str string | Num int

section \<open>Date and time\<close>

definition dt_tuple :: "datetime \<Rightarrow> nat \<times> nat \<times> nat \<times> nat \<times> nat" where
  "dt_tuple d = (ordinal d, hour d, minute d, second d, microsecond d)"

text \<open>\<^verbatim>\<open>a < b\<close> and \<^verbatim>\<open>a >= b\<close> on naive datetimes: lexicographic on the fields.\<close>

definition dt_lt :: "datetime \<Rightarrow> datetime \<Rightarrow> bool" where
  "dt_lt a b \<longleftrightarrow> dt_tuple a < dt_tuple b"

definition dt_ge :: "datetime \<Rightarrow> datetime \<Rightarrow> bool" where
  "dt_ge a b \<longleftrightarrow> dt_tuple a \<ge> dt_tuple b"

definition parse_datetime :: "pylib \<Rightarrow> string \<Rightarrow> datetime option" where
  "parse_datetime L dt_str = strptime L dt_str"

definition get_period_start :: "datetime \<Rightarrow> string \<Rightarrow> error + datetime" where
  "get_period_start ts granularity =
     (if granularity = ''30m'' then
        Inr (ts\<lparr>minute := (minute ts div 30) * 30, second := 0, microsecond := 0\<rparr>)
      else if granularity = ''1day'' then
        Inr (ts\<lparr>hour := 0, minute := 0, second := 0, microsecond := 0\<rparr>)
      else Inl (InvalidGranularity granularity))"

text \<open>The ordinal of \<^verbatim>\<open>date.max\<close> (9999-12-31); adding a day to it raises \<^verbatim>\<open>OverflowError\<close>.\<close>

definition max_ordinal :: nat where
  "max_ordinal = 3652059"

function date_loop :: "pylib \<Rightarrow> nat \<Rightarrow> nat \<Rightarrow> string list \<Rightarrow> error + string list" where
  "date_loop L current end_date dates =
     (if current \<le> end_date then
        (if current + 1 > max_ordinal then Inl OverflowError
         else date_loop L (current + 1) end_date (dates @ [strftime_date L current]))
      else Inr dates)"
  by pat_completeness auto
termination
  by (relation "measure (\<lambda>(L, current, end_date, dates). Suc end_date - current)") auto

definition get_date_range :: "pylib \<Rightarrow> datetime \<Rightarrow> datetime \<Rightarrow> error + string list" where
  "get_date_range L from_dt to_dt = date_loop L (ordinal from_dt) (ordinal to_dt) []"

section \<open>The accumulator\<close>

text \<open>\<^verbatim>\<open>for i in range(9): acc[i] += metrics[i]\<close>\<close>

definition add_vec :: "int list \<Rightarrow> int list \<Rightarrow> int list" where
  "add_vec acc ms = map (\<lambda>i. acc ! i + ms ! i) [0..<9]"

text \<open>
  \<^verbatim>\<open>for i in range(9): table[key][i] += metrics[i]\<close> on the defaultdict: a missing key is
  first inserted (at the end) with the vector of nine zeros.
\<close>

fun add_metrics :: "table \<Rightarrow> key \<Rightarrow> int list \<Rightarrow> table" where
  "add_metrics [] k ms = [(k, add_vec (replicate 9 0) ms)]"
| "add_metrics ((k', v) # t) k ms =
     (if k' = k then (k', add_vec v ms) # t else (k', v) # add_metrics t k ms)"

text \<open>\<^verbatim>\<open>for key, metrics in partial.items(): for i in range(9): combined[key][i] += metrics[i]\<close>\<close>

definition merge_partial :: "table \<Rightarrow> table \<Rightarrow> table" where
  "merge_partial combined partial = fold (\<lambda>(k, ms) c. add_metrics c k ms) partial combined"

section \<open>Record parser and filter\<close>

text \<open>\<^verbatim>\<open>user_set = set(user_filter) if user_filter else None\<close>\<close>

definition filter_set :: "string list option \<Rightarrow> string set option" where
  "filter_set flt = (case flt of None \<Rightarrow> None | Some xs \<Rightarrow> if xs = [] then None else Some (set xs))"

text \<open>\<^verbatim>\<open>if user_set and user not in user_set: continue\<close>\<close>

definition rejected :: "string set option \<Rightarrow> string \<Rightarrow> bool" where
  "rejected s x = (case s of None \<Rightarrow> False | Some S \<Rightarrow> S \<noteq> {} \<and> x \<notin> S)"

text \<open>\<^verbatim>\<open>[int(row[i]) for i in range(3, 12)]\<close>, raising at the first field that is no integer.\<close>

fun int_fields :: "pylib \<Rightarrow> string list \<Rightarrow> error + int list" where
  "int_fields L [] = Inr []"
| "int_fields L (s # ss) =
     (case int_of_str L s of
        None \<Rightarrow> Inl (InvalidLiteral s)
      | Some n \<Rightarrow> (case int_fields L ss of Inl e \<Rightarrow> Inl e | Inr ns \<Rightarrow> Inr (n # ns)))"

definition parse_metrics :: "pylib \<Rightarrow> row \<Rightarrow> error + int list" where
  "parse_metrics L r = int_fields L (map (\<lambda>i. r ! i) [3..<12])"

text \<open>\<^verbatim>\<open>key = (period_str, *dim_values)\<close>\<close>

definition make_key :: "string \<Rightarrow> string list \<Rightarrow> string \<Rightarrow> string \<Rightarrow> key" where
  "make_key period_str dimensions u a =
     period_str # (if ''user'' \<in> set dimensions then [u] else [])
                @ (if ''app'' \<in> set dimensions then [a] else [])"

text \<open>
  The body of the loop of \<^verbatim>\<open>process_file_chunk\<close> (myscript_optimized.py) after the chunk
  bound: what one row does. The row is only read at indices below 12 once its length is
  known to be at least 12.
\<close>

definition chunk_row ::
  "pylib \<Rightarrow> datetime \<Rightarrow> datetime \<Rightarrow> string \<Rightarrow> string list \<Rightarrow>
   string set option \<Rightarrow> string set option \<Rightarrow> row \<Rightarrow> (key \<times> int list) step" where
  "chunk_row L from_dt to_dt granularity dimensions user_set app_set r =
     (if length r < 12 then Continue
      else if rejected user_set (r ! 1) then Continue
      else if rejected app_set (r ! 2) then Continue
      else case parse_datetime L (r ! 0) of
        None \<Rightarrow> Continue
      | Some row_dt \<Rightarrow>
          if dt_lt row_dt from_dt \<or> dt_ge row_dt to_dt then Continue
          else
            (case get_period_start row_dt granularity of
               Inl e \<Rightarrow> Raise e
             | Inr period_start \<Rightarrow>
                 (case parse_metrics L r of
                    Inl e \<Rightarrow> Raise e
                  | Inr ms \<Rightarrow>
                      Emit (make_key (strftime L period_start) dimensions (r ! 1) (r ! 2), ms))))"

text \<open>\<^verbatim>\<open>if chunk_size and rows_read >= chunk_size: break\<close>\<close>

definition chunk_done :: "nat option \<Rightarrow> nat \<Rightarrow> bool" where
  "chunk_done chunk_size rows_read =
     (case chunk_size of None \<Rightarrow> False | Some c \<Rightarrow> c \<noteq> 0 \<and> rows_read \<ge> c)"

text \<open>
  The loop \<^verbatim>\<open>for row in reader\<close> of \<^verbatim>\<open>process_file_chunk\<close>, on the state
  (local_aggregated, rows_processed, rows_read).
\<close>

fun chunk_loop ::
  "pylib \<Rightarrow> datetime \<Rightarrow> datetime \<Rightarrow> string \<Rightarrow> string list \<Rightarrow>
   string set option \<Rightarrow> string set option \<Rightarrow> nat option \<Rightarrow> row list \<Rightarrow>
   table \<times> nat \<times> nat \<Rightarrow> error + table \<times> nat" where
  "chunk_loop L from_dt to_dt g dims us as cs [] (agg, rows_processed, rows_read) =
     Inr (agg, rows_processed)"
| "chunk_loop L from_dt to_dt g dims us as cs (r # rest) (agg, rows_processed, rows_read) =
     (if chunk_done cs rows_read then Inr (agg, rows_processed)
      else case chunk_row L from_dt to_dt g dims us as r of
        Continue \<Rightarrow>
          chunk_loop L from_dt to_dt g dims us as cs rest (agg, rows_processed, rows_read + 1)
      | Emit (k, ms) \<Rightarrow>
          chunk_loop L from_dt to_dt g dims us as cs rest
            (add_metrics agg k ms, rows_processed + 1, rows_read + 1)
      | Raise e \<Rightarrow> Inl e)"

definition process_file_chunk ::
  "pylib \<Rightarrow> filesystem \<Rightarrow> string \<Rightarrow> datetime \<Rightarrow> datetime \<Rightarrow> string \<Rightarrow> string list \<Rightarrow>
   string list option \<Rightarrow> string list option \<Rightarrow> nat \<Rightarrow> nat option \<Rightarrow> error + table \<times> nat" where
  "process_file_chunk L fs filepath from_dt to_dt granularity dimensions
       user_filter app_filter chunk_start chunk_size =
     (let user_set = filter_set user_filter; app_set = filter_set app_filter in
      case fs filepath of
        None \<Rightarrow> Inr ([], 0)
      | Some lines \<Rightarrow>
          chunk_loop L from_dt to_dt granularity dimensions user_set app_set chunk_size
            (csv_reader L (drop chunk_start lines)) ([], 0, 0))"

section \<open>Chunk planner and merge reducer (myscript_optimized.py)\<close>

text \<open>
  \<^verbatim>\<open>as_completed(futures)\<close> hands the futures over in the order in which the workers
  finish. That order is the scheduler's choice: \<open>order\<close> is the permutation of the indices
  of \<open>futures\<close> it chose.
\<close>

definition as_completed :: "nat list \<Rightarrow> 'a list \<Rightarrow> 'a list" where
  "as_completed order futures = map (\<lambda>i. futures ! i) order"

text \<open>
  The merge loop of \<^verbatim>\<open>process_file_parallel\<close>: \<^verbatim>\<open>future.result()\<close> re-raises what the worker
  raised, otherwise the partial table is added into \<^verbatim>\<open>combined\<close>.
\<close>

fun merge_chunks :: "(error + table \<times> nat) list \<Rightarrow> table \<times> nat \<Rightarrow> error + table \<times> nat" where
  "merge_chunks [] (combined, total_rows) = Inr (combined, total_rows)"
| "merge_chunks (Inl e # futures) (combined, total_rows) = Inl e"
| "merge_chunks (Inr (partial, rows) # futures) (combined, total_rows) =
     merge_chunks futures (merge_partial combined partial, total_rows + rows)"

text \<open>The (chunk_start, chunk_size) pairs submitted by \<^verbatim>\<open>process_file_parallel\<close>.\<close>

definition chunk_size_of :: "nat \<Rightarrow> nat \<Rightarrow> nat" where
  "chunk_size_of line_count num_threads = (line_count + num_threads - 1) div num_threads"

definition chunk_plan :: "nat \<Rightarrow> nat \<Rightarrow> (nat \<times> nat) list" where
  "chunk_plan line_count num_threads =
     (let chunk_size = chunk_size_of line_count num_threads
      in map (\<lambda>i. (i * chunk_size, chunk_size)) [0..<num_threads])"


text \<open>\<^verbatim>\<open>os.path.join(LOGS_DIR, f'{date_str}.log.csv')\<close>\<close>

definition log_path :: "string \<Rightarrow> string \<Rightarrow> string" where
  "log_path logs_dir date_str = logs_dir @ ''/'' @ date_str @ ''.log.csv''"

text \<open>The merge loop of \<^verbatim>\<open>aggregate_data_parallel\<close>, which also counts the files.\<close>

fun merge_files ::
  "(error + table \<times> nat) list \<Rightarrow> table \<times> nat \<times> nat \<Rightarrow> error + table \<times> nat \<times> nat" where
  "merge_files [] (combined, total_rows, files_processed) =
     Inr (combined, total_rows, files_processed)"
| "merge_files (Inl e # futures) (combined, total_rows, files_processed) = Inl e"
| "merge_files (Inr (partial, rows) # futures) (combined, total_rows, files_processed) =
     merge_files futures (merge_partial combined partial, total_rows + rows, files_processed + 1)"

text \<open>
  The engine. \<^verbatim>\<open>ThreadPoolExecutor(max_workers=min(num_threads, len(date_files)))\<close> raises
  \<^verbatim>\<open>ValueError\<close> when that minimum is 0; one future is submitted for every day in range
  whose file exists.
\<close>

definition aggregate_data_parallel ::
  "pylib \<Rightarrow> filesystem \<Rightarrow> string \<Rightarrow> nat list \<Rightarrow> datetime \<Rightarrow> datetime \<Rightarrow> string \<Rightarrow>
   string list \<Rightarrow> string list option \<Rightarrow> string list option \<Rightarrow> nat \<Rightarrow>
   error + table \<times> nat \<times> nat" where
  "aggregate_data_parallel L fs logs_dir order from_dt to_dt granularity dimensions
       user_filter app_filter num_threads =
     (case get_date_range L from_dt to_dt of
        Inl e \<Rightarrow> Inl e
      | Inr date_files \<Rightarrow>
          if min num_threads (length date_files) = 0 then Inl MaxWorkersError
          else
            let futures =
              map (\<lambda>date_str.
                     process_file_chunk L fs (log_path logs_dir date_str) from_dt to_dt
                       granularity dimensions user_filter app_filter 0 None)
                  (filter (\<lambda>date_str. fs (log_path logs_dir date_str) \<noteq> None) date_files)
            in merge_files (as_completed order futures) ([], 0, 0))"

section \<open>The sequential reader (myscript.py)\<close>

definition parse_row :: "pylib \<Rightarrow> row \<Rightarrow> error + parsed" where
  "parse_row L r =
     (case parse_metrics L r of
        Inl e \<Rightarrow> Inl e
      | Inr ms \<Rightarrow> Inr \<lparr>timestamp = r ! 0, user = r ! 1, app = r ! 2, metrics = ms\<rparr>)"

text \<open>The body of the loop of the generator \<^verbatim>\<open>read_log_file\<close>.\<close>

definition read_row ::
  "pylib \<Rightarrow> datetime \<Rightarrow> datetime \<Rightarrow> string set option \<Rightarrow> string set option \<Rightarrow> row \<Rightarrow>
   (parsed \<times> datetime) step" where
  "read_row L from_dt to_dt user_set app_set r =
     (if length r < 12 then Continue
      else case parse_row L r of
        Inl e \<Rightarrow> Raise e
      | Inr p \<Rightarrow>
          if rejected user_set (user p) then Continue
          else if rejected app_set (app p) then Continue
          else
            (case parse_datetime L (timestamp p) of
               None \<Rightarrow> Continue
             | Some row_dt \<Rightarrow>
                 if dt_lt row_dt from_dt \<or> dt_ge row_dt to_dt then Continue
                 else Emit (p, row_dt)))"

text \<open>
  What the generator produces: the items it yields, in order, and the exception that ends
  it, if one does.
\<close>

fun read_rows ::
  "pylib \<Rightarrow> datetime \<Rightarrow> datetime \<Rightarrow> string set option \<Rightarrow> string set option \<Rightarrow> row list \<Rightarrow>
   (parsed \<times> datetime) list \<times> error option" where
  "read_rows L from_dt to_dt us as [] = ([], None)"
| "read_rows L from_dt to_dt us as (r # rest) =
     (case read_row L from_dt to_dt us as r of
        Continue \<Rightarrow> read_rows L from_dt to_dt us as rest
      | Emit x \<Rightarrow> (case read_rows L from_dt to_dt us as rest of (xs, e) \<Rightarrow> (x # xs, e))
      | Raise e \<Rightarrow> ([], Some e))"

definition read_log_file ::
  "pylib \<Rightarrow> filesystem \<Rightarrow> string \<Rightarrow> datetime \<Rightarrow> datetime \<Rightarrow>
   string list option \<Rightarrow> string list option \<Rightarrow> (parsed \<times> datetime) list \<times> error option" where
  "read_log_file L fs filepath from_dt to_dt user_filter app_filter =
     (case fs filepath of
        None \<Rightarrow> ([], None)
      | Some lines \<Rightarrow>
          read_rows L from_dt to_dt (filter_set user_filter) (filter_set app_filter)
            (csv_reader L lines))"

section \<open>Result emitter\<close>

definition METRIC_COLUMNS :: "string list" where
  "METRIC_COLUMNS = [''metric_1'', ''metric_2'', ''metric_3'', ''metric_4'', ''metric_5'',
                     ''metric_6'', ''metric_7'', ''metric_8'', ''metric_9'']"

text \<open>\<^verbatim>\<open>aggregated[key]\<close> on the defaultdict.\<close>

definition getitem :: "table \<Rightarrow> key \<Rightarrow> int list" where
  "getitem t k = (case map_of t k of None \<Rightarrow> replicate 9 0 | Some v \<Rightarrow> v)"

text \<open>
  \<^verbatim>\<open>write_results\<close>: the header and the rows handed to \<^verbatim>\<open>csv.writer\<close>, in order. Python
  compares the key tuples lexicographically and their strings by code point.
\<close>

definition write_results :: "table \<Rightarrow> string list \<Rightarrow> string list \<times> cell list list" where
  "write_results aggregated dimensions =
     (let header = [''timestamp'']
                   @ (if ''user'' \<in> set dimensions then [''user''] else [])
                   @ (if ''app'' \<in> set dimensions then [''app''] else [])
                   @ METRIC_COLUMNS;
          sorted_keys = sort (map fst aggregated)
      in (header, map (\<lambda>k. map Str k @ map Num (getitem aggregated k)) sorted_keys))"

section \<open>Notions of the specification\<close>

text \<open>
  The value of metric \<open>i\<close> under key \<open>k\<close> in a table, a key absent from the table counting
  as the all-zero vector.
\<close>

definition cell_at :: "table \<Rightarrow> key \<Rightarrow> nat \<Rightarrow> int" where
  "cell_at t k i = (case map_of t k of None \<Rightarrow> 0 | Some v \<Rightarrow> v ! i)"

text \<open>The sum of metric \<open>i\<close> over the (key, metrics) pairs of a list that carry key \<open>k\<close>.\<close>

definition event_sum :: "(key \<times> int list) list \<Rightarrow> key \<Rightarrow> nat \<Rightarrow> int" where
  "event_sum es k i = sum_list (map (\<lambda>(k', ms). if k' = k then ms ! i else 0) es)"

text \<open>
  The merge of the specification: for every key present in any input table, the
  element-wise sum of that key's vector across the tables.
\<close>

definition merge_spec :: "table list \<Rightarrow> key \<Rightarrow> int list option" where
  "merge_spec ts k =
     (if \<exists>t \<in> set ts. k \<in> fst ` set t
      then Some (map (\<lambda>i. sum_list (map (\<lambda>t. cell_at t k i) ts)) [0..<9])
      else None)"

text \<open>A table as a dictionary has unique keys, and every vector has nine entries.\<close>

definition wf_table :: "table \<Rightarrow> bool" where
  "wf_table t \<longleftrightarrow> distinct (map fst t) \<and> list_all (\<lambda>v. length v = 9) (map snd t)"

text \<open>The half-open time window \<open>[from, to)\<close> of the specification.\<close>

definition in_window :: "datetime \<Rightarrow> datetime \<Rightarrow> datetime \<Rightarrow> bool" where
  "in_window from_dt to_dt ts \<longleftrightarrow> dt_tuple from_dt \<le> dt_tuple ts \<and> dt_tuple ts < dt_tuple to_dt"

text \<open>
  A record passes the checks of the filter: field count, user filter, app filter,
  timestamp and time window.
\<close>

definition passes ::
  "pylib \<Rightarrow> datetime \<Rightarrow> datetime \<Rightarrow> string set option \<Rightarrow> string set option \<Rightarrow> row \<Rightarrow> bool" where
  "passes L from_dt to_dt user_set app_set r \<longleftrightarrow>
     length r \<ge> 12 \<and> \<not> rejected user_set (r ! 1) \<and> \<not> rejected app_set (r ! 2) \<and>
     (case strptime L (r ! 0) of None \<Rightarrow> False | Some ts \<Rightarrow> in_window from_dt to_dt ts)"

text \<open>One of the metric fields (columns 3 to 11) of a row is not an integer.\<close>

definition malformed_metric :: "pylib \<Rightarrow> row \<Rightarrow> bool" where
  "malformed_metric L r \<longleftrightarrow> (\<exists>i \<in> {3..<12}. int_of_str L (r ! i) = None)"

text \<open>The rows of the file at a path; a file that does not exist has none.\<close>

definition file_rows :: "pylib \<Rightarrow> filesystem \<Rightarrow> string \<Rightarrow> row list" where
  "file_rows L fs filepath =
     (case fs filepath of None \<Rightarrow> [] | Some lines \<Rightarrow> csv_reader L lines)"

text \<open>The days of a range whose log file exists, and all rows of the files of a range.\<close>

definition existing_days :: "filesystem \<Rightarrow> string \<Rightarrow> string list \<Rightarrow> string list" where
  "existing_days fs logs_dir dates = filter (\<lambda>d. fs (log_path logs_dir d) \<noteq> None) dates"

definition all_rows :: "pylib \<Rightarrow> filesystem \<Rightarrow> string \<Rightarrow> string list \<Rightarrow> row list" where
  "all_rows L fs logs_dir dates =
     concat (map (\<lambda>d. file_rows L fs (log_path logs_dir d)) dates)"

text \<open>The (key, metrics) pairs of the rows that a worker folds into its table, in order.\<close>

definition emitted ::
  "pylib \<Rightarrow> datetime \<Rightarrow> datetime \<Rightarrow> string \<Rightarrow> string list \<Rightarrow>
   string set option \<Rightarrow> string set option \<Rightarrow> row list \<Rightarrow> (key \<times> int list) list" where
  "emitted L from_dt to_dt g dims us as rows =
     List.map_filter
       (\<lambda>r. case chunk_row L from_dt to_dt g dims us as r of Emit x \<Rightarrow> Some x | _ \<Rightarrow> None) rows"

text \<open>The first exception raised by a row, if any.\<close>

fun first_raise ::
  "pylib \<Rightarrow> datetime \<Rightarrow> datetime \<Rightarrow> string \<Rightarrow> string list \<Rightarrow>
   string set option \<Rightarrow> string set option \<Rightarrow> row list \<Rightarrow> error option" where
  "first_raise L from_dt to_dt g dims us as [] = None"
| "first_raise L from_dt to_dt g dims us as (r # rest) =
     (case chunk_row L from_dt to_dt g dims us as r of
        Raise e \<Rightarrow> Some e
      | _ \<Rightarrow> first_raise L from_dt to_dt g dims us as rest)"

text \<open>The line range a chunk (chunk_start, chunk_size) covers in a file of \<open>n\<close> lines.\<close>

definition chunk_range :: "nat \<Rightarrow> nat \<times> nat \<Rightarrow> nat set" where
  "chunk_range n c = {fst c ..< min (fst c + snd c) n}"

text \<open>The lines of a file whose numbers lie in the line range of a chunk, in order.\<close>

definition chunk_lines :: "string list \<Rightarrow> nat \<times> nat \<Rightarrow> string list" where
  "chunk_lines lines c = map (\<lambda>i. lines ! i) [fst c ..< min (fst c + snd c) (length lines)]"

text \<open>
  The number of physical lines that the first \<open>k\<close> records of \<^verbatim>\<open>csv.reader\<close> take from the
  lines it is given: each record takes its first line and its continuation lines.
\<close>

fun lines_consumed :: "pylib \<Rightarrow> nat \<Rightarrow> string list \<Rightarrow> nat" where
  "lines_consumed L k [] = 0"
| "lines_consumed L 0 (l # ls) = 0"
| "lines_consumed L (Suc k) (l # ls) =
     length (l # take (csv_extra L (l # ls)) ls)
       + lines_consumed L k (drop (csv_extra L (l # ls)) ls)"

text \<open>
  The line numbers of the records that the worker of a chunk (chunk_start, chunk_size)
  processes: it skips \<open>chunk_start\<close> lines and then processes the first \<open>chunk_size\<close> records
  of the reader, all of them when \<open>chunk_size\<close> is 0.
\<close>

definition worker_lines :: "pylib \<Rightarrow> string list \<Rightarrow> nat \<times> nat \<Rightarrow> nat set" where
  "worker_lines L lines c =
     {fst c ..< fst c + lines_consumed L (if snd c = 0 then length lines else snd c)
                          (drop (fst c) lines)}"

text \<open>
  The input format of the specification, one record per line: wherever in the file the
  reader starts a record, the record ends with its first line.
\<close>

definition one_record_per_line :: "pylib \<Rightarrow> string list \<Rightarrow> bool" where
  "one_record_per_line L lines \<longleftrightarrow>
     list_all (\<lambda>k. csv_extra L (drop k lines) = 0) [0..<length lines]"

text \<open>The rows of lines that hold one record each.\<close>

definition rows_of_lines :: "pylib \<Rightarrow> string list \<Rightarrow> row list" where
  "rows_of_lines L lines = map (\<lambda>l. csv_fields L [l]) lines"

text \<open>The row count of a result, when there is one.\<close>

definition rows_matched :: "error + table \<times> nat \<Rightarrow> nat option" where
  "rows_matched res = (case res of Inl e \<Rightarrow> None | Inr (t, rows) \<Rightarrow> Some rows)"

section \<open>Sample inputs\<close>

definition mk_dt :: "nat \<Rightarrow> nat \<Rightarrow> nat \<Rightarrow> nat \<Rightarrow> datetime" where
  "mk_dt day h m s = \<lparr>ordinal = day, hour = h, minute = m, second = s, microsecond = 0\<rparr>"

definition sample_row :: "string \<Rightarrow> string \<Rightarrow> string \<Rightarrow> string \<Rightarrow> row" where
  "sample_row ts u a m = [ts, u, a, m, m, m, m, m, m, m, m, m]"

definition jan1 :: datetime where "jan1 = mk_dt 739252 0 0 0"
definition jan2 :: datetime where "jan2 = mk_dt 739253 0 0 0"
definition jan3 :: datetime where "jan3 = mk_dt 739254 0 0 0"

definition row_u1_1 :: row where
  "row_u1_1 = sample_row ''2025-01-01 00:47:00'' ''u1'' ''a1'' ''1''"

definition row_u1_2 :: row where
  "row_u1_2 = sample_row ''2025-01-01 00:00:00'' ''u1'' ''a2'' ''2''"

text \<open>A row at the lower bound and a row at the upper bound of the window of the examples.\<close>

definition row_at_from :: row where
  "row_at_from = sample_row ''2025-01-01 00:00:00'' ''u1'' ''a1'' ''1''"

definition row_at_to :: row where
  "row_at_to = sample_row ''2025-01-03 00:00:00'' ''u1'' ''a1'' ''1''"

text \<open>
  A row with too few fields, a row in the window whose first metric is no integer, and a
  row that has both an unparseable timestamp and a metric that is no integer.
\<close>

definition row_short :: row where
  "row_short = [''2025-01-01 00:47:00'', ''u1'', ''a1'', ''1'']"

definition row_bad_metric :: row where
  "row_bad_metric =
     [''2025-01-01 00:47:00'', ''u1'', ''a1'', ''x'', ''1'', ''1'', ''1'', ''1'', ''1'', ''1'', ''1'', ''1'']"

definition row_bad :: row where
  "row_bad =
     [''not a timestamp'', ''u1'', ''a1'', ''x'', ''1'', ''1'', ''1'', ''1'', ''1'', ''1'', ''1'', ''1'']"

text \<open>
  The lines of the log files of the examples, and a record of which the third field is
  quoted and holds a line break, so that it takes two lines of the file.
\<close>

definition line_u1_1 :: string where
  "line_u1_1 = ''2025-01-01 00:47:00,u1,a1,1,1,1,1,1,1,1,1,1''"

definition line_short :: string where
  "line_short = ''2025-01-01 00:47:00,u1,a1,1''"

definition line_at_to :: string where
  "line_at_to = ''2025-01-03 00:00:00,u1,a1,1,1,1,1,1,1,1,1,1''"

definition quoted_head :: string where
  "quoted_head = ''2025-01-01 00:47:00,u1,'' @ [CHR 0x22] @ ''a''"

definition quoted_tail :: string where
  "quoted_tail = ''1'' @ [CHR 0x22] @ '',1,1,1,1,1,1,1,1,1''"

definition row_quoted :: row where
  "row_quoted = sample_row ''2025-01-01 00:47:00'' ''u1'' (''a'' @ [CHR 0x0A] @ ''1'') ''1''"

text \<open>
  An excerpt of the standard library, on the strings and dates of the examples below:
  2025-01-01 is the day with ordinal 739252. A string outside the excerpt is treated as one
  the library rejects; the examples use \<^verbatim>\<open>'not a timestamp'\<close> and \<^verbatim>\<open>'x'\<close> for those. Of
  \<^verbatim>\<open>csv.reader\<close> the excerpt has the rows of the sample lines; only a line that opens a quoted
  field without closing it takes in the line after it.
\<close>

definition sample_lib :: pylib where
  "sample_lib = \<lparr>
     strptime = map_of
       [(''2025-01-01 00:00:00'', mk_dt 739252 0 0 0),
        (''2025-01-01 00:47:00'', mk_dt 739252 0 47 0),
        (''2025-01-02 00:00:00'', mk_dt 739253 0 0 0),
        (''2025-01-02 09:10:00'', mk_dt 739253 9 10 0),
        (''2025-01-03 00:00:00'', mk_dt 739254 0 0 0)],
     strftime = (\<lambda>d. case map_of
       [(mk_dt 739252 0 0 0, ''2025-01-01 00:00:00''),
        (mk_dt 739252 0 30 0, ''2025-01-01 00:30:00''),
        (mk_dt 739253 0 0 0, ''2025-01-02 00:00:00''),
        (mk_dt 739253 9 0 0, ''2025-01-02 09:00:00''),
        (mk_dt 739254 0 0 0, ''2025-01-03 00:00:00'')] d of Some s \<Rightarrow> s | None \<Rightarrow> []),
     strftime_date = (\<lambda>n. case map_of
       [(739252, ''2025-01-01''), (739253, ''2025-01-02''), (739254, ''2025-01-03'')] n
        of Some s \<Rightarrow> s | None \<Rightarrow> []),
     int_of_str = map_of [(''0'', 0), (''1'', 1), (''2'', 2), (''3'', 3), (''5'', 5)],
     csv_extra = (\<lambda>ls. case ls of [] \<Rightarrow> 0 | l # _ \<Rightarrow> if l = quoted_head then 1 else 0),
     csv_fields = (\<lambda>ls. case map_of
       [([line_u1_1], row_u1_1),
        ([line_short], row_short),
        ([line_at_to], row_at_to),
        ([quoted_head, quoted_tail], row_quoted)] ls of Some r \<Rightarrow> r | None \<Rightarrow> [])\<rparr>"

text \<open>
  A log directory in which the file of 2025-01-02 is missing.
\<close>

definition sample_fs :: filesystem where
  "sample_fs = map_of
     [(''logs/2025-01-01.log.csv'', [line_u1_1, line_short]),
      (''logs/2025-01-03.log.csv'', [line_at_to])]"

text \<open>
  Three large files: 100000 and 100001 lines with one record each, and 100000 lines of which
  the first two hold one record.
\<close>

definition plain_file :: "string list" where
  "plain_file = replicate 100000 line_u1_1"

definition longer_file :: "string list" where
  "longer_file = replicate 100001 line_u1_1"

definition quoted_file :: "string list" where
  "quoted_file = quoted_head # quoted_tail # replicate 99998 line_u1_1"

definition big_fs :: filesystem where
  "big_fs = map_of
     [(''plain.csv'', plain_file), (''longer.csv'', longer_file), (''quoted.csv'', quoted_file)]"

text \<open>One final table under two insertion orders, as two schedules may leave it.\<close>

definition table_a :: table where
  "table_a =
     [([''2025-01-02 00:00:00'', ''u1''], [2, 2, 2, 2, 2, 2, 2, 2, 2]),
      ([''2025-01-01 00:00:00'', ''u2''], [1, 1, 1, 1, 1, 1, 1, 1, 1])]"

definition table_b :: table where
  "table_b =
     [([''2025-01-01 00:00:00'', ''u2''], [1, 1, 1, 1, 1, 1, 1, 1, 1]),
      ([''2025-01-02 00:00:00'', ''u1''], [2, 2, 2, 2, 2, 2, 2, 2, 2])]"

text \<open>The results of two workers, the second one finishing first.\<close>

definition sample_futures :: "(error + table \<times> nat) list" where
  "sample_futures =
     [Inr ([([''2025-01-01 00:00:00'', ''u1''], [2, 2, 2, 2, 2, 2, 2, 2, 2])], 1),
      Inr ([([''2025-01-01 00:00:00'', ''u1''], [1, 1, 1, 1, 1, 1, 1, 1, 1])], 1)]"

section \<open>The accumulator and the merge as sums\<close>

lemma length_add_vec: "length (add_vec a b) = 9"
  by (simp add: add_vec_def)

lemma nth_add_vec: "i < 9 \<Longrightarrow> add_vec a b ! i = a ! i + b ! i"
  unfolding add_vec_def by (simp del: upt_Suc)

lemma keys_add_metrics: "fst ` set (add_metrics t k ms) = insert k (fst ` set t)"
proof (induction t)
  case Nil
  then show ?case by simp
next
  case (Cons p t)
  obtain k' v where p: "p = (k', v)" by (cases p)
  show ?case
  proof (cases "k' = k")
    case True
    with p show ?thesis by simp
  next
    case False
    with p Cons show ?thesis by (simp add: insert_commute)
  qed
qed

lemma distinct_add_metrics:
  "distinct (map fst t) \<Longrightarrow> distinct (map fst (add_metrics t k ms))"
proof (induction t)
  case Nil
  then show ?case by simp
next
  case (Cons p t)
  obtain k' v where p: "p = (k', v)" by (cases p)
  show ?case
  proof (cases "k' = k")
    case True
    with Cons.prems p show ?thesis by simp
  next
    case False
    have "fst ` set (add_metrics t k ms) = insert k (fst ` set t)"
      by (rule keys_add_metrics)
    with Cons False p show ?thesis by auto
  qed
qed

lemma lengths_add_metrics:
  "list_all (\<lambda>v. length v = 9) (map snd t) \<Longrightarrow>
   list_all (\<lambda>v. length v = 9) (map snd (add_metrics t k ms))"
  by (induction t) (auto simp: length_add_vec)

lemma wf_add_metrics: "wf_table t \<Longrightarrow> wf_table (add_metrics t k ms)"
  unfolding wf_table_def by (simp add: distinct_add_metrics lengths_add_metrics)

lemma map_of_add_metrics:
  "map_of (add_metrics t k ms) k' =
     (if k' = k then Some (add_vec (getitem t k) ms) else map_of t k')"
proof (induction t)
  case Nil
  then show ?case by (simp add: getitem_def)
next
  case (Cons p t)
  obtain k0 v where p: "p = (k0, v)" by (cases p)
  show ?case
  proof (cases "k0 = k")
    case True
    with p show ?thesis by (simp add: getitem_def)
  next
    case False
    with p Cons show ?thesis by (cases "k' = k") (simp_all add: getitem_def)
  qed
qed

lemma cell_add_metrics:
  "i < 9 \<Longrightarrow>
   cell_at (add_metrics t k ms) k' i = cell_at t k' i + (if k' = k then ms ! i else 0)"
proof (cases "k' = k")
  case True
  assume "i < 9"
  with True show ?thesis
    by (cases "map_of t k") (simp_all add: cell_at_def map_of_add_metrics nth_add_vec getitem_def)
next
  case False
  then show ?thesis by (simp add: cell_at_def map_of_add_metrics)
qed

lemma merge_partial_Nil: "merge_partial t [] = t"
  by (simp add: merge_partial_def)

lemma merge_partial_Cons:
  "merge_partial t ((k, ms) # es) = merge_partial (add_metrics t k ms) es"
  by (simp add: merge_partial_def)

lemma merge_partial_append:
  "merge_partial t (es @ fs) = merge_partial (merge_partial t es) fs"
  by (simp add: merge_partial_def)

lemma wf_merge_partial: "wf_table t \<Longrightarrow> wf_table (merge_partial t es)"
proof (induction es arbitrary: t)
  case Nil
  then show ?case by (simp add: merge_partial_Nil)
next
  case (Cons e es)
  obtain k ms where e: "e = (k, ms)" by (cases e)
  from Cons show ?case unfolding e merge_partial_Cons
    by (simp add: wf_add_metrics)
qed

lemma keys_merge_partial:
  "fst ` set (merge_partial t es) = fst ` set t \<union> fst ` set es"
proof (induction es arbitrary: t)
  case Nil
  then show ?case by (simp add: merge_partial_Nil)
next
  case (Cons e es)
  obtain k ms where e: "e = (k, ms)" by (cases e)
  show ?case unfolding e merge_partial_Cons Cons.IH keys_add_metrics
    by auto
qed

lemma event_sum_Nil: "event_sum [] k i = 0"
  by (simp add: event_sum_def)

lemma event_sum_Cons:
  "event_sum ((k', ms) # es) k i = (if k' = k then ms ! i else 0) + event_sum es k i"
  by (simp add: event_sum_def)

lemma event_sum_append: "event_sum (es @ fs) k i = event_sum es k i + event_sum fs k i"
  by (simp add: event_sum_def)

lemma event_sum_concat:
  "event_sum (concat ess) k i = sum_list (map (\<lambda>es. event_sum es k i) ess)"
  by (induction ess) (simp_all add: event_sum_Nil event_sum_append)

lemma cell_merge_partial:
  "i < 9 \<Longrightarrow> cell_at (merge_partial t es) k i = cell_at t k i + event_sum es k i"
proof (induction es arbitrary: t)
  case Nil
  then show ?case by (simp add: merge_partial_Nil event_sum_Nil)
next
  case (Cons e es)
  obtain k' ms where e: "e = (k', ms)" by (cases e)
  from Cons show ?case unfolding e merge_partial_Cons
    by (simp add: cell_add_metrics event_sum_Cons)
qed

lemma cell_at_absent: "k \<notin> fst ` set t \<Longrightarrow> cell_at t k i = 0"
proof -
  assume "k \<notin> fst ` set t"
  then have "map_of t k = None" by (simp add: map_of_eq_None_iff)
  then show ?thesis by (simp add: cell_at_def)
qed

lemma event_sum_absent: "k \<notin> fst ` set es \<Longrightarrow> event_sum es k i = 0"
  by (induction es) (auto simp: event_sum_Nil event_sum_Cons)

lemma event_sum_distinct:
  "distinct (map fst t) \<Longrightarrow> event_sum t k i = cell_at t k i"
proof (induction t)
  case Nil
  then show ?case by (simp add: event_sum_Nil cell_at_def)
next
  case (Cons p t)
  obtain k' v where p: "p = (k', v)" by (cases p)
  show ?case
  proof (cases "k' = k")
    case True
    with Cons.prems p have "k \<notin> fst ` set t" by simp
    then have "event_sum t k i = 0" by (rule event_sum_absent)
    with True p show ?thesis by (simp add: event_sum_Cons cell_at_def)
  next
    case False
    with Cons p show ?thesis by (simp add: event_sum_Cons cell_at_def)
  qed
qed

lemma wf_table_Nil: "wf_table []"
  by (simp add: wf_table_def)

lemma wf_table_lookup:
  assumes "wf_table t" and "map_of t k = Some v"
  shows "length v = 9"
proof -
  from assms(2) have "(k, v) \<in> set t" by (rule map_of_SomeD)
  with assms(1) show ?thesis by (auto simp: wf_table_def list_all_iff)
qed

lemma table_eqI:
  assumes wf: "wf_table t" "wf_table t'"
    and keys: "fst ` set t = fst ` set t'"
    and cells: "\<And>k i. i < 9 \<Longrightarrow> cell_at t k i = cell_at t' k i"
  shows "map_of t = map_of t'"
proof
  fix k
  show "map_of t k = map_of t' k"
  proof (cases "k \<in> fst ` set t")
    case False
    with keys have "map_of t k = None" "map_of t' k = None"
      by (simp_all add: map_of_eq_None_iff)
    then show ?thesis by simp
  next
    case True
    then obtain v where v: "map_of t k = Some v"
      by (metis map_of_eq_None_iff not_None_eq)
    from True keys obtain v' where v': "map_of t' k = Some v'"
      by (metis map_of_eq_None_iff not_None_eq)
    have l: "length v = 9" "length v' = 9"
      using wf v v' by (auto dest: wf_table_lookup)
    have "v ! i = v' ! i" if "i < 9" for i
      using cells [OF that, of k] v v' by (simp add: cell_at_def)
    with l have "v = v'" by (simp add: nth_equalityI)
    with v v' show ?thesis by simp
  qed
qed

section \<open>The worker loop and the reducer\<close>

lemma emitted_Nil: "emitted L f t g d us as [] = []"
  by (simp add: emitted_def map_filter_simps)

lemma emitted_Cons:
  "emitted L f t g d us as (r # rows) =
     (case chunk_row L f t g d us as r of Emit x \<Rightarrow> [x] | _ \<Rightarrow> []) @ emitted L f t g d us as rows"
  by (simp add: emitted_def map_filter_simps split: step.split)

lemma emitted_append:
  "emitted L f t g d us as (xs @ ys) = emitted L f t g d us as xs @ emitted L f t g d us as ys"
  by (induction xs) (simp_all add: emitted_Nil emitted_Cons)

lemma emitted_concat:
  "emitted L f t g d us as (concat parts) = concat (map (emitted L f t g d us as) parts)"
  by (induction parts) (simp_all add: emitted_Nil emitted_append)

lemma first_raise_append:
  "first_raise L f t g d us as (xs @ ys) =
     (case first_raise L f t g d us as xs of
        Some e \<Rightarrow> Some e
      | None \<Rightarrow> first_raise L f t g d us as ys)"
  by (induction xs) (simp_all split: step.split)

lemma first_raise_concat_None:
  "first_raise L f t g d us as (concat parts) = None \<longleftrightarrow>
     (\<forall>p \<in> set parts. first_raise L f t g d us as p = None)"
  by (induction parts) (auto simp: first_raise_append split: option.splits)

lemma chunk_loop_None:
  "chunk_loop L f t g d us as None rows (agg, rp, rr) =
     (case first_raise L f t g d us as rows of
        Some e \<Rightarrow> Inl e
      | None \<Rightarrow> Inr (merge_partial agg (emitted L f t g d us as rows),
                     rp + length (emitted L f t g d us as rows)))"
proof (induction rows arbitrary: agg rp rr)
  case Nil
  then show ?case by (simp add: emitted_Nil merge_partial_Nil)
next
  case (Cons r rows)
  show ?case
  proof (cases "chunk_row L f t g d us as r")
    case Continue
    then show ?thesis
      by (simp add: Cons.IH chunk_done_def emitted_Cons split: option.split)
  next
    case (Emit x)
    obtain k ms where x: "x = (k, ms)" by (cases x)
    with Emit show ?thesis
      by (simp add: Cons.IH chunk_done_def emitted_Cons merge_partial_Cons split: option.split)
  next
    case (Raise e)
    then show ?thesis by (simp add: chunk_done_def)
  qed
qed

lemma merge_chunks_Inr:
  "merge_chunks (map Inr prs) (c, n) =
     Inr (merge_partial c (concat (map fst prs)), n + sum_list (map snd prs))"
proof (induction prs arbitrary: c n)
  case Nil
  then show ?case by (simp add: merge_partial_Nil)
next
  case (Cons pr prs)
  obtain P r where pr: "pr = (P, r)" by (cases pr)
  show ?case unfolding pr by (simp add: Cons.IH merge_partial_append)
qed

lemma merge_files_Inr:
  "merge_files (map Inr prs) (c, n, m) =
     Inr (merge_partial c (concat (map fst prs)), n + sum_list (map snd prs), m + length prs)"
proof (induction prs arbitrary: c n m)
  case Nil
  then show ?case by (simp add: merge_partial_Nil)
next
  case (Cons pr prs)
  obtain P r where pr: "pr = (P, r)" by (cases pr)
  show ?case unfolding pr by (simp add: Cons.IH merge_partial_append)
qed

lemma sum_list_mset_cong:
  fixes h :: "'a \<Rightarrow> 'b::comm_monoid_add"
  assumes "mset xs = mset ys"
  shows "sum_list (map h xs) = sum_list (map h ys)"
proof -
  have "sum_list (map h xs) = sum_mset (image_mset h (mset xs))"
    by (simp flip: sum_mset_sum_list)
  also have "\<dots> = sum_mset (image_mset h (mset ys))"
    by (simp add: assms)
  also have "\<dots> = sum_list (map h ys)"
    by (simp flip: sum_mset_sum_list)
  finally show ?thesis .
qed

lemma futures_all_Inr:
  fixes futures :: "('a + 'b) list"
  assumes "mset futures = mset (map Inr prs0)"
  shows "\<exists>prs. futures = map Inr prs \<and> mset prs = mset prs0"
proof -
  have "set futures = Inr ` set prs0"
    using mset_eq_setD [OF assms] by simp
  then have "\<forall>x \<in> set futures. \<exists>y. x = Inr y" by auto
  then have "\<exists>prs. futures = map Inr prs"
    by (simp add: ex_map_conv)
  then obtain prs where prs: "futures = map Inr prs" ..
  have "inj (image_mset (Inr :: 'b \<Rightarrow> 'a + 'b))"
    by (rule multiset.inj_map) (simp add: inj_def)
  moreover have "image_mset Inr (mset prs) = image_mset (Inr :: 'b \<Rightarrow> 'a + 'b) (mset prs0)"
    using assms unfolding prs by simp
  ultimately have "mset prs = mset prs0" by (rule injD)
  with prs show ?thesis by blast
qed

lemma cell_merge_concat:
  assumes "\<forall>P \<in> set Ps. wf_table P" and "i < 9"
  shows "cell_at (merge_partial [] (concat Ps)) k i = sum_list (map (\<lambda>P. cell_at P k i) Ps)"
proof -
  have "cell_at [] k i = 0" by (simp add: cell_at_def)
  then have "cell_at (merge_partial [] (concat Ps)) k i = event_sum (concat Ps) k i"
    using assms(2) by (simp add: cell_merge_partial)
  also have "\<dots> = sum_list (map (\<lambda>P. event_sum P k i) Ps)"
    by (rule event_sum_concat)
  also have "\<dots> = sum_list (map (\<lambda>P. cell_at P k i) Ps)"
    using assms(1) by (intro arg_cong [where f = sum_list] map_cong refl)
      (simp add: event_sum_distinct wf_table_def)
  finally show ?thesis .
qed

lemma merge_refines_spec:
  assumes "\<forall>P \<in> set Ps. wf_table P"
  shows "map_of (merge_partial [] (concat Ps)) = merge_spec Ps"
proof
  fix k
  let ?T = "merge_partial [] (concat Ps)"
  have wfT: "wf_table ?T" by (simp add: wf_merge_partial wf_table_Nil)
  have keys: "fst ` set ?T = (\<Union>P \<in> set Ps. fst ` set P)"
    by (simp add: keys_merge_partial image_UN)
  have cells: "cell_at ?T k i = sum_list (map (\<lambda>P. cell_at P k i) Ps)" if "i < 9" for i
    using assms that by (rule cell_merge_concat)
  show "map_of ?T k = merge_spec Ps k"
  proof (cases "k \<in> fst ` set ?T")
    case False
    then have "map_of ?T k = None" by (simp add: map_of_eq_None_iff)
    moreover from False keys have "merge_spec Ps k = None"
      by (auto simp: merge_spec_def)
    ultimately show ?thesis by simp
  next
    case True
    then obtain v where v: "map_of ?T k = Some v"
      by (metis map_of_eq_None_iff not_None_eq)
    have l: "length v = 9" using wfT v by (rule wf_table_lookup)
    have "v ! i = sum_list (map (\<lambda>P. cell_at P k i) Ps)" if "i < 9" for i
      using cells [OF that] v by (simp add: cell_at_def)
    with l have "v = map (\<lambda>i. sum_list (map (\<lambda>P. cell_at P k i) Ps)) [0..<9]"
      by (intro nth_equalityI) (simp_all del: upt_Suc)
    moreover from True keys have "\<exists>P \<in> set Ps. k \<in> fst ` set P" by auto
    ultimately show ?thesis using v by (simp add: merge_spec_def del: upt_Suc)
  qed
qed

section \<open>What a single row does\<close>

lemma int_fields_Inl_iff:
  "(\<exists>e. int_fields L ss = Inl e) \<longleftrightarrow> (\<exists>s \<in> set ss. int_of_str L s = None)"
  by (induction ss) (auto split: option.splits sum.splits)

lemma parse_metrics_Inl_iff:
  "(\<exists>e. parse_metrics L r = Inl e) \<longleftrightarrow> malformed_metric L r"
  unfolding parse_metrics_def malformed_metric_def int_fields_Inl_iff
  by (simp only: set_map set_upt) blast

lemma get_period_start_Inl_iff:
  "(\<exists>e. get_period_start ts g = Inl e) \<longleftrightarrow> g \<noteq> ''30m'' \<and> g \<noteq> ''1day''"
  by (simp add: get_period_start_def)

lemma get_period_start_Inl:
  "get_period_start ts g = Inl e \<Longrightarrow> e = InvalidGranularity g"
  by (simp add: get_period_start_def split: if_splits)

lemma window_check:
  "(dt_lt ts from_dt \<or> dt_ge ts to_dt) \<longleftrightarrow> \<not> in_window from_dt to_dt ts"
  by (auto simp: dt_lt_def dt_ge_def in_window_def)

lemma chunk_row_Continue_iff:
  "chunk_row L f t g d us as r = Continue \<longleftrightarrow> \<not> passes L f t us as r"
  unfolding chunk_row_def passes_def parse_datetime_def window_check
  by (simp split: option.split sum.split)

lemma chunk_row_Raise_iff:
  "(\<exists>e. chunk_row L f t g d us as r = Raise e) \<longleftrightarrow>
     passes L f t us as r \<and> ((g \<noteq> ''30m'' \<and> g \<noteq> ''1day'') \<or> malformed_metric L r)"
proof (cases "passes L f t us as r")
  case False
  then have "chunk_row L f t g d us as r = Continue" by (simp add: chunk_row_Continue_iff)
  with False show ?thesis by simp
next
  case True
  then obtain ts where ts: "strptime L (r ! 0) = Some ts" and w: "in_window f t ts"
    and l: "\<not> length r < 12" and u: "\<not> rejected us (r ! 1)" and a: "\<not> rejected as (r ! 2)"
    by (auto simp: passes_def split: option.splits)
  have eq: "chunk_row L f t g d us as r =
      (case get_period_start ts g of
         Inl e \<Rightarrow> Raise e
       | Inr ps \<Rightarrow> (case parse_metrics L r of
              Inl e \<Rightarrow> Raise e
            | Inr ms \<Rightarrow> Emit (make_key (strftime L ps) d (r ! 1) (r ! 2), ms)))"
    using ts w l u a by (simp add: chunk_row_def parse_datetime_def window_check)
  show ?thesis
  proof (cases "get_period_start ts g")
    case (Inl e)
    with eq True get_period_start_Inl_iff [of ts g] show ?thesis by auto
  next
    case (Inr ps)
    with get_period_start_Inl_iff [of ts g] have g: "\<not> (g \<noteq> ''30m'' \<and> g \<noteq> ''1day'')" by auto
    show ?thesis
    proof (cases "parse_metrics L r")
      case (Inl e)
      with parse_metrics_Inl_iff [of L r] have "malformed_metric L r" by auto
      with eq Inr Inl True show ?thesis by simp
    next
      case (Inr ms)
      with parse_metrics_Inl_iff [of L r] have "\<not> malformed_metric L r" by auto
      with eq \<open>get_period_start ts g = Inr ps\<close> Inr True g show ?thesis by simp
    qed
  qed
qed

lemma read_row_Raise_iff:
  "(\<exists>e. read_row L f t us as r = Raise e) \<longleftrightarrow> length r \<ge> 12 \<and> malformed_metric L r"
proof (cases "parse_metrics L r")
  case (Inl e)
  with parse_metrics_Inl_iff [of L r] have "malformed_metric L r" by auto
  with Inl show ?thesis by (auto simp: read_row_def parse_row_def)
next
  case (Inr ms)
  with parse_metrics_Inl_iff [of L r] have "\<not> malformed_metric L r" by auto
  with Inr show ?thesis
    by (auto simp: read_row_def parse_row_def split: option.splits)
qed

lemma read_row_passes:
  "length r \<ge> 12 \<Longrightarrow> parse_metrics L r = Inr ms \<Longrightarrow>
   read_row L f t us as r =
     (if passes L f t us as r
      then Emit (\<lparr>timestamp = r ! 0, user = r ! 1, app = r ! 2, metrics = ms\<rparr>,
                 the (strptime L (r ! 0)))
      else Continue)"
  by (auto simp: read_row_def parse_row_def passes_def parse_datetime_def window_check
           split: option.splits)

lemma chunk_loop_Inl_iff:
  "(\<exists>e. chunk_loop L f t g d us as None rows st = Inl e) \<longleftrightarrow>
     (\<exists>r \<in> set rows. \<exists>e. chunk_row L f t g d us as r = Raise e)"
proof -
  obtain agg rp rr where st: "st = (agg, rp, rr)" by (cases st)
  have "first_raise L f t g d us as rows \<noteq> None \<longleftrightarrow>
      (\<exists>r \<in> set rows. \<exists>e. chunk_row L f t g d us as r = Raise e)"
    by (induction rows) (auto split: step.splits)
  then show ?thesis unfolding st chunk_loop_None by (auto split: option.splits)
qed

lemma filter_set_empty: "filter_set (Some []) = filter_set None"
  by (simp add: filter_set_def)

lemma not_rejected_empty: "\<not> rejected (filter_set (Some [])) x"
  by (simp add: filter_set_def rejected_def)

lemma first_raise_all_emit:
  "\<forall>r \<in> set rows. \<exists>x. chunk_row L f t g d us as r = Emit x \<Longrightarrow>
   first_raise L f t g d us as rows = None"
  by (induction rows) auto

lemma emitted_all_emit:
  "\<forall>r \<in> set rows. \<exists>x. chunk_row L f t g d us as r = Emit x \<Longrightarrow>
   length (emitted L f t g d us as rows) = length rows"
  by (induction rows) (auto simp: emitted_Nil emitted_Cons)

lemma chunk_loop_all_emit:
  assumes "\<forall>r \<in> set rows. \<exists>x. chunk_row L f t g d us as r = Emit x"
  shows "\<exists>T. chunk_loop L f t g d us as None rows ([], 0, 0) = Inr (T, length rows)"
  using first_raise_all_emit [OF assms] emitted_all_emit [OF assms]
  by (simp add: chunk_loop_None)

section \<open>The chunk planner\<close>

lemma chunk_size_covers:
  assumes "0 < N"
  shows "n \<le> N * chunk_size_of n N"
proof -
  have "n + N - 1 = (n + N - 1) div N * N + (n + N - 1) mod N" by simp
  moreover have "(n + N - 1) mod N < N" using assms by simp
  ultimately have "n + N - 1 < (n + N - 1) div N * N + N" by linarith
  then show ?thesis using assms by (simp add: chunk_size_of_def mult.commute)
qed

lemma chunk_size_pos: "0 < N \<Longrightarrow> 0 < n \<Longrightarrow> 0 < chunk_size_of n N"
  using chunk_size_covers [of N n] by (cases "chunk_size_of n N") auto

lemma length_chunk_plan: "length (chunk_plan n N) = N"
  by (simp add: chunk_plan_def Let_def)

lemma nth_chunk_plan:
  "i < N \<Longrightarrow> chunk_plan n N ! i = (i * chunk_size_of n N, chunk_size_of n N)"
  by (simp add: chunk_plan_def Let_def)

lemma chunk_range_nth:
  "i < N \<Longrightarrow> chunk_range n (chunk_plan n N ! i) =
     {i * chunk_size_of n N ..< min (Suc i * chunk_size_of n N) n}"
  by (simp add: nth_chunk_plan chunk_range_def add.commute)

lemma card_chunk_range:
  "i < N \<Longrightarrow> card (chunk_range n (chunk_plan n N ! i)) =
     min (chunk_size_of n N) (n - i * chunk_size_of n N)"
  by (simp add: chunk_range_nth)

lemma chunk_lines_take_drop: "chunk_lines lines c = take (snd c) (drop (fst c) lines)"
proof (rule nth_equalityI)
  show "length (chunk_lines lines c) = length (take (snd c) (drop (fst c) lines))"
    by (simp add: chunk_lines_def)
  fix i assume "i < length (chunk_lines lines c)"
  then have a: "i < length [fst c..<min (fst c + snd c) (length lines)]"
    unfolding chunk_lines_def by (simp only: length_map)
  then have b: "fst c + i < min (fst c + snd c) (length lines)"
    unfolding length_upt by arith
  then have "[fst c..<min (fst c + snd c) (length lines)] ! i = fst c + i"
    by (rule nth_upt)
  with a have "chunk_lines lines c ! i = lines ! (fst c + i)"
    unfolding chunk_lines_def by (simp only: nth_map)
  moreover from b have "take (snd c) (drop (fst c) lines) ! i = lines ! (fst c + i)" by simp
  ultimately show "chunk_lines lines c ! i = take (snd c) (drop (fst c) lines) ! i"
    by simp
qed

lemma length_chunk_lines:
  "i < N \<Longrightarrow> length (chunk_lines lines (chunk_plan (length lines) N ! i)) =
     min (chunk_size_of (length lines) N) (length lines - i * chunk_size_of (length lines) N)"
  by (simp add: nth_chunk_plan chunk_lines_take_drop)





lemma chunk_size_least:
  assumes "0 < N" and "0 < n"
  shows "N * (chunk_size_of n N - 1) < n"
proof -
  have "(n + N - 1) div N * N \<le> n + N - 1" by simp
  then have "chunk_size_of n N * N \<le> n + N - 1" by (simp add: chunk_size_of_def)
  moreover have "0 < chunk_size_of n N" using assms by (rule chunk_size_pos)
  then have "N * (chunk_size_of n N - 1) + N = chunk_size_of n N * N"
    by (cases "chunk_size_of n N") (simp_all add: mult.commute)
  ultimately show ?thesis using assms by linarith
qed

lemma chunk_size_ceiling:
  assumes "0 < N" and "0 < n"
  shows "int (chunk_size_of n N) = \<lceil>real n / real N\<rceil>"
proof -
  let ?c = "chunk_size_of n N"
  have pos: "0 < ?c" using assms by (rule chunk_size_pos)
  have up: "real n \<le> real N * real ?c"
    using chunk_size_covers [OF assms(1), of n] by (metis of_nat_le_iff of_nat_mult)
  have "real (N * (?c - 1)) < real n"
    using chunk_size_least [OF assms] by (simp only: of_nat_less_iff)
  then have lo: "real N * (real ?c - 1) < real n"
    using pos by (simp add: of_nat_diff)
  have "\<lceil>real n / real N\<rceil> = int ?c"
  proof (rule ceiling_unique)
    show "of_int (int ?c) - 1 < real n / real N"
      using lo assms(1) by (simp add: pos_less_divide_eq mult.commute)
    show "real n / real N \<le> of_int (int ?c)"
      using up assms(1) by (simp add: pos_divide_le_eq mult.commute)
  qed
  then show ?thesis by simp
qed

lemma one_record_per_line_iff:
  "one_record_per_line L lines \<longleftrightarrow> (\<forall>k < length lines. csv_extra L (drop k lines) = 0)"
  by (auto simp: one_record_per_line_def list_all_iff)

lemma one_record_per_line_Cons:
  "one_record_per_line L (l # ls) \<longleftrightarrow>
     csv_extra L (l # ls) = 0 \<and> one_record_per_line L ls"
proof -
  have "(\<forall>k < Suc (length ls). csv_extra L (drop k (l # ls)) = 0) \<longleftrightarrow>
      csv_extra L (l # ls) = 0 \<and> (\<forall>k < length ls. csv_extra L (drop k ls) = 0)"
    by (auto simp: less_Suc_eq_0_disj)
  then show ?thesis by (simp add: one_record_per_line_iff)
qed

lemma one_record_per_line_drop:
  "one_record_per_line L lines \<Longrightarrow> one_record_per_line L (drop s lines)"
  by (auto simp: one_record_per_line_iff add.commute)

lemma csv_reader_one_record_per_line:
  "one_record_per_line L lines \<Longrightarrow> csv_reader L lines = rows_of_lines L lines"
  by (induction lines) (simp_all add: rows_of_lines_def one_record_per_line_Cons)

lemma chunk_loop_Some:
  "c \<noteq> 0 \<Longrightarrow>
   chunk_loop L f t g d us as (Some c) rows (agg, rp, rr) =
     chunk_loop L f t g d us as None (take (c - rr) rows) (agg, rp, rr)"
proof (induction rows arbitrary: agg rp rr)
  case Nil
  then show ?case by simp
next
  case (Cons r rows)
  show ?case
  proof (cases "c \<le> rr")
    case True
    with Cons.prems show ?thesis by (simp add: chunk_done_def)
  next
    case False
    then have "c - rr = Suc (c - Suc rr)" by arith
    then have t: "take (c - rr) (r # rows) = r # take (c - Suc rr) rows"
      by simp
    from False Cons.prems show ?thesis unfolding t
      by (simp add: chunk_done_def Cons.IH split: step.split)
  qed
qed

lemma process_file_chunk_lines:
  assumes "fs p = Some lines" and "snd c \<noteq> 0" and "one_record_per_line L lines"
  shows "process_file_chunk L fs p f t g d uf af (fst c) (Some (snd c)) =
     chunk_loop L f t g d (filter_set uf) (filter_set af) None
       (rows_of_lines L (chunk_lines lines c)) ([], 0, 0)"
proof -
  have "csv_reader L (drop (fst c) lines) = rows_of_lines L (drop (fst c) lines)"
    using assms(3) by (intro csv_reader_one_record_per_line one_record_per_line_drop)
  then have "take (snd c) (csv_reader L (drop (fst c) lines)) =
      rows_of_lines L (chunk_lines lines c)"
    by (simp add: rows_of_lines_def chunk_lines_take_drop take_map)
  with assms(1,2) show ?thesis
    by (simp add: process_file_chunk_def chunk_loop_Some)
qed

lemma plan_chunk_size:
  assumes "0 < chunk_size_of n N" and "c \<in> set (chunk_plan n N)"
  shows "snd c \<noteq> 0"
  using assms by (auto simp: chunk_plan_def Let_def)

text \<open>
  After its first \<open>k\<close> records the reader goes on at line \<open>lines_consumed L k ls\<close>: these are
  the lines that the first \<open>k\<close> records take.
\<close>

lemma drop_min_length: "drop (min (length ls) e) ls = drop e ls"
  by (cases "e \<le> length ls") (simp_all add: min_def)

lemma csv_reader_resumes:
  "csv_reader L ls = take k (csv_reader L ls) @ csv_reader L (drop (lines_consumed L k ls) ls)"
proof (induction L k ls rule: lines_consumed.induct)
  case (1 L k)
  show ?case by simp
next
  case (2 L l ls)
  show ?case by (simp del: csv_reader.simps)
next
  case (3 L k l ls)
  have "drop (lines_consumed L (Suc k) (l # ls)) (l # ls) =
      drop (lines_consumed L k (drop (csv_extra L (l # ls)) ls)) (drop (csv_extra L (l # ls)) ls)"
    by (simp add: drop_min_length add.commute [of "min _ _"] flip: drop_drop)
  with 3 show ?case by simp
qed

lemma lines_consumed_one_record:
  "one_record_per_line L ls \<Longrightarrow> lines_consumed L k ls = min k (length ls)"
proof (induction ls arbitrary: k)
  case Nil
  then show ?case by simp
next
  case (Cons l ls)
  then show ?case by (cases k) (simp_all add: one_record_per_line_Cons)
qed

lemma worker_lines_one_record:
  assumes "one_record_per_line L lines" and "snd c \<noteq> 0"
  shows "worker_lines L lines c = chunk_range (length lines) c"
proof -
  from assms(1) have "one_record_per_line L (drop (fst c) lines)"
    by (rule one_record_per_line_drop)
  then have "lines_consumed L (snd c) (drop (fst c) lines) =
      min (snd c) (length lines - fst c)"
    by (simp add: lines_consumed_one_record)
  with assms(2) show ?thesis
    by (auto simp: worker_lines_def chunk_range_def)
qed

section \<open>The engine\<close>

declare date_loop.simps [simp del]

lemma date_loop_eq:
  "end_date < max_ordinal \<Longrightarrow>
   date_loop L current end_date dates =
     Inr (dates @ map (strftime_date L) [current..<Suc end_date])"
proof (induction L current end_date dates rule: date_loop.induct)
  case (1 L current end_date dates)
  show ?case
  proof (cases "current \<le> end_date")
    case True
    with "1.prems" have "\<not> current + 1 > max_ordinal" by simp
    with True "1.IH" "1.prems"
    have "date_loop L current end_date dates =
        Inr ((dates @ [strftime_date L current]) @ map (strftime_date L) [current + 1..<Suc end_date])"
      by (subst date_loop.simps) simp
    moreover from True have "[current..<Suc end_date] = current # [current + 1..<Suc end_date]"
      by (simp add: upt_conv_Cons del: upt_Suc)
    ultimately show ?thesis by simp
  next
    case False
    then show ?thesis by (subst date_loop.simps) simp
  qed
qed

lemma get_date_range_eq:
  "ordinal to_dt < max_ordinal \<Longrightarrow>
   get_date_range L from_dt to_dt =
     Inr (map (strftime_date L) [ordinal from_dt..<Suc (ordinal to_dt)])"
  by (simp add: get_date_range_def date_loop_eq)

lemma as_completed_perm:
  assumes "mset order = mset [0..<length futures]"
  shows "mset (as_completed order futures) = mset futures"
proof -
  have "mset (as_completed order futures) = image_mset ((!) futures) (mset order)"
    by (simp add: as_completed_def)
  also have "\<dots> = image_mset ((!) futures) (mset [0..<length futures])"
    by (simp add: assms)
  also have "\<dots> = mset (map ((!) futures) [0..<length futures])"
    by simp
  also have "\<dots> = mset futures"
    by (simp add: map_nth)
  finally show ?thesis .
qed

lemma merge_files_Inl_mem:
  "merge_files futures st = Inl e \<Longrightarrow> Inl e \<in> set futures"
proof (induction futures arbitrary: st)
  case Nil
  then show ?case by (cases st) simp
next
  case (Cons x xs)
  obtain c r m where st: "st = (c, r, m)" by (cases st)
  show ?case
  proof (cases x)
    case (Inl e')
    with Cons.prems st show ?thesis by simp
  next
    case (Inr pr)
    obtain P n where "pr = (P, n)" by (cases pr)
    with Cons Inr st show ?thesis by auto
  qed
qed

lemma merge_files_Inr_all:
  "merge_files futures st = Inr res \<Longrightarrow> \<exists>prs. futures = map Inr prs"
proof (induction futures arbitrary: st)
  case Nil
  then show ?case by simp
next
  case (Cons x xs)
  obtain c r m where st: "st = (c, r, m)" by (cases st)
  show ?case
  proof (cases x)
    case (Inl e')
    with Cons.prems st show ?thesis by simp
  next
    case (Inr pr)
    obtain P n where pr: "pr = (P, n)" by (cases pr)
    with Cons.prems Inr st
    have "merge_files xs (merge_partial c P, r + n, m + 1) = Inr res" by simp
    then obtain prs where "xs = map Inr prs" using Cons.IH by blast
    with Inr have "x # xs = map Inr (pr # prs)" by simp
    then show ?thesis by (rule exI)
  qed
qed

lemma merge_files_uniform:
  assumes "\<forall>x \<in> set futures. x = Inl e \<or> x = Inr ([], 0)"
  shows "merge_files futures (c, r, m) =
     (if Inl e \<in> set futures then Inl e else Inr (c, r, m + length futures))"
  using assms
proof (induction futures arbitrary: m)
  case Nil
  then show ?case by simp
next
  case (Cons x xs)
  then have "x = Inl e \<or> x = Inr ([], 0)" by simp
  then show ?case
  proof
    assume "x = Inl e"
    then show ?thesis by simp
  next
    assume x: "x = Inr ([], 0)"
    from Cons have "merge_files xs (c, r, Suc m) =
        (if Inl e \<in> set xs then Inl e else Inr (c, r, Suc m + length xs))"
      by simp
    with x show ?thesis by (simp add: merge_partial_Nil)
  qed
qed

lemma merge_spec_perm:
  assumes "mset Ps = mset Qs"
  shows "merge_spec Ps = merge_spec Qs"
proof
  fix k
  have "set Ps = set Qs" using assms by (rule mset_eq_setD)
  moreover have "map (\<lambda>i. sum_list (map (\<lambda>t. cell_at t k i) Ps)) [0..<9] =
      map (\<lambda>i. sum_list (map (\<lambda>t. cell_at t k i) Qs)) [0..<9]"
    by (intro map_cong refl sum_list_mset_cong assms)
  ultimately show "merge_spec Ps k = merge_spec Qs k"
    by (simp add: merge_spec_def del: upt_Suc)
qed

lemma process_file_chunk_whole:
  "process_file_chunk L fs p f t g d uf af 0 None =
     (case first_raise L f t g d (filter_set uf) (filter_set af) (file_rows L fs p) of
        Some e \<Rightarrow> Inl e
      | None \<Rightarrow>
          Inr (merge_partial [] (emitted L f t g d (filter_set uf) (filter_set af) (file_rows L fs p)),
               length (emitted L f t g d (filter_set uf) (filter_set af) (file_rows L fs p))))"
  by (cases "fs p")
    (simp_all add: process_file_chunk_def file_rows_def chunk_loop_None emitted_Nil
       merge_partial_Nil Let_def split: option.split)

lemma wf_process_file_chunk:
  "process_file_chunk L fs p f t g d uf af 0 None = Inr (T, r) \<Longrightarrow> wf_table T"
  by (auto simp: process_file_chunk_whole wf_merge_partial wf_table_Nil split: option.splits)

lemma emitted_passes:
  "first_raise L f t g d us as rows = None \<Longrightarrow>
   length (emitted L f t g d us as rows) = length (filter (passes L f t us as) rows)"
proof (induction rows)
  case Nil
  then show ?case by (simp add: emitted_Nil)
next
  case (Cons r rows)
  show ?case
  proof (cases "chunk_row L f t g d us as r")
    case Continue
    moreover from Continue have "\<not> passes L f t us as r" by (simp add: chunk_row_Continue_iff)
    ultimately show ?thesis using Cons by (simp add: emitted_Cons)
  next
    case (Emit x)
    then have "chunk_row L f t g d us as r \<noteq> Continue" by simp
    then have "passes L f t us as r" by (simp add: chunk_row_Continue_iff)
    with Emit Cons show ?thesis by (simp add: emitted_Cons)
  next
    case (Raise e)
    with Cons.prems show ?thesis by simp
  qed
qed

lemma engine_unfold:
  assumes "get_date_range L f t = Inr dates" and "0 < nt" and "dates \<noteq> []"
  shows "aggregate_data_parallel L fs dir order f t g dims uf af nt =
     merge_files
       (as_completed order
          (map (\<lambda>d. process_file_chunk L fs (log_path dir d) f t g dims uf af 0 None)
               (existing_days fs dir dates)))
       ([], 0, 0)"
proof -
  from assms(2,3) have "length dates \<noteq> 0" "nt \<noteq> 0" by simp_all
  with assms(1) show ?thesis
    unfolding aggregate_data_parallel_def existing_days_def Let_def
    by (auto simp: min_def split: if_splits)
qed

lemma engine_ok_range:
  assumes "aggregate_data_parallel L fs dir order f t g dims uf af nt = Inr res"
    and "get_date_range L f t = Inr dates"
  shows "0 < nt \<and> dates \<noteq> []"
  using assms by (auto simp: aggregate_data_parallel_def split: if_splits)

lemma all_rows_existing:
  "all_rows L fs dir (existing_days fs dir dates) = all_rows L fs dir dates"
  by (induction dates) (auto simp: all_rows_def existing_days_def file_rows_def)

lemma merge_files_perm_ok:
  assumes perm: "mset futs = mset (map Inr prs)"
    and wf: "\<forall>P \<in> set (map fst prs). wf_table P"
  shows "\<exists>T. merge_files futs ([], 0, 0) = Inr (T, sum_list (map snd prs), length prs)
           \<and> map_of T = merge_spec (map fst prs)
           \<and> fst ` set T = (\<Union>P \<in> set (map fst prs). fst ` set P)"
proof -
  from perm obtain prs' where futs: "futs = map Inr prs'" and p: "mset prs' = mset prs"
    using futures_all_Inr by blast
  let ?T = "merge_partial [] (concat (map fst prs'))"
  have s: "set prs' = set prs" using p by (rule mset_eq_setD)
  have m: "mset (map fst prs') = mset (map fst prs)" using p by simp
  have "merge_files futs ([], 0, 0) = Inr (?T, sum_list (map snd prs'), length prs')"
    by (simp add: futs merge_files_Inr)
  moreover have "sum_list (map snd prs') = sum_list (map snd prs)"
    using p by (rule sum_list_mset_cong)
  moreover have "length prs' = length prs" using p by (rule mset_eq_length)
  moreover have "map_of ?T = merge_spec (map fst prs')"
    using wf s by (intro merge_refines_spec) simp
  moreover have "merge_spec (map fst prs') = merge_spec (map fst prs)"
    using m by (rule merge_spec_perm)
  moreover have "fst ` set ?T = (\<Union>P \<in> set (map fst prs). fst ` set P)"
    by (simp add: keys_merge_partial image_UN s)
  ultimately show ?thesis by simp
qed

lemma merge_files_Inl_ex:
  assumes "Inl e \<in> set futs"
  shows "\<exists>e'. merge_files futs st = Inl e'"
proof (cases "merge_files futs st")
  case (Inl e')
  then show ?thesis by blast
next
  case (Inr res)
  then obtain prs where "futs = map Inr prs" using merge_files_Inr_all by blast
  with assms show ?thesis by auto
qed

lemma first_raise_Some_iff:
  "(\<exists>e. first_raise L f t g d us as rows = Some e) \<longleftrightarrow>
     (\<exists>r \<in> set rows. \<exists>e. chunk_row L f t g d us as r = Raise e)"
  by (induction rows) (auto split: step.splits)

lemma engine_Inl_iff:
  assumes dates: "get_date_range L f t = Inr dates" and nt: "0 < nt" and ne: "dates \<noteq> []"
    and order: "mset order = mset [0..<length (existing_days fs dir dates)]"
  shows "(\<exists>e. aggregate_data_parallel L fs dir order f t g dims uf af nt = Inl e) \<longleftrightarrow>
     (\<exists>r \<in> set (all_rows L fs dir dates).
        \<exists>e. chunk_row L f t g dims (filter_set uf) (filter_set af) r = Raise e)"
proof -
  let ?w = "\<lambda>d. process_file_chunk L fs (log_path dir d) f t g dims uf af 0 None"
  let ?futs = "map ?w (existing_days fs dir dates)"
  have eng: "aggregate_data_parallel L fs dir order f t g dims uf af nt =
      merge_files (as_completed order ?futs) ([], 0, 0)"
    using dates nt ne by (rule engine_unfold)
  have "mset (as_completed order ?futs) = mset ?futs"
    using order by (intro as_completed_perm) simp
  then have set_eq: "set (as_completed order ?futs) = set ?futs" by (rule mset_eq_setD)
  have "(\<exists>e. merge_files (as_completed order ?futs) ([], 0, 0) = Inl e) \<longleftrightarrow>
      (\<exists>e. Inl e \<in> set ?futs)"
  proof
    assume "\<exists>e. merge_files (as_completed order ?futs) ([], 0, 0) = Inl e"
    then obtain e where "merge_files (as_completed order ?futs) ([], 0, 0) = Inl e" ..
    then have "Inl e \<in> set (as_completed order ?futs)" by (rule merge_files_Inl_mem)
    with set_eq show "\<exists>e. Inl e \<in> set ?futs" by blast
  next
    assume "\<exists>e. Inl e \<in> set ?futs"
    then obtain e where "Inl e \<in> set (as_completed order ?futs)" using set_eq by blast
    then show "\<exists>e. merge_files (as_completed order ?futs) ([], 0, 0) = Inl e"
      by (rule merge_files_Inl_ex)
  qed
  also have "\<dots> \<longleftrightarrow> (\<exists>d \<in> set (existing_days fs dir dates). \<exists>e.
      first_raise L f t g dims (filter_set uf) (filter_set af) (file_rows L fs (log_path dir d)) = Some e)"
  proof -
    have "(\<exists>e. ?w d = Inl e) \<longleftrightarrow> (\<exists>e.
        first_raise L f t g dims (filter_set uf) (filter_set af) (file_rows L fs (log_path dir d)) = Some e)"
      for d
      by (simp add: process_file_chunk_whole split: option.split)
    then show ?thesis by (simp add: image_iff) metis
  qed
  also have "\<dots> \<longleftrightarrow> (\<exists>r \<in> set (all_rows L fs dir (existing_days fs dir dates)).
      \<exists>e. chunk_row L f t g dims (filter_set uf) (filter_set af) r = Raise e)"
    unfolding first_raise_Some_iff by (auto simp: all_rows_def)
  finally show ?thesis by (simp add: eng all_rows_existing)
qed

lemma engine_Inr_char:
  assumes dates: "get_date_range L f t = Inr dates" and nt: "0 < nt" and ne: "dates \<noteq> []"
    and order: "mset order = mset [0..<length (existing_days fs dir dates)]"
    and quiet: "first_raise L f t g dims (filter_set uf) (filter_set af) (all_rows L fs dir dates) = None"
  shows "\<exists>T.
      map (\<lambda>d. process_file_chunk L fs (log_path dir d) f t g dims uf af 0 None)
          (existing_days fs dir dates) =
        map Inr (map (\<lambda>d. (merge_partial []
                   (emitted L f t g dims (filter_set uf) (filter_set af) (file_rows L fs (log_path dir d))),
                 length (emitted L f t g dims (filter_set uf) (filter_set af)
                   (file_rows L fs (log_path dir d)))))
             (existing_days fs dir dates))
    \<and> aggregate_data_parallel L fs dir order f t g dims uf af nt =
        Inr (T, length (emitted L f t g dims (filter_set uf) (filter_set af) (all_rows L fs dir dates)),
             length (existing_days fs dir dates))
    \<and> map_of T = merge_spec (map (\<lambda>d. merge_partial []
          (emitted L f t g dims (filter_set uf) (filter_set af) (file_rows L fs (log_path dir d))))
          (existing_days fs dir dates))
    \<and> fst ` set T =
        fst ` set (emitted L f t g dims (filter_set uf) (filter_set af) (all_rows L fs dir dates))"
proof -
  let ?ex = "existing_days fs dir dates"
  let ?em = "\<lambda>d. emitted L f t g dims (filter_set uf) (filter_set af) (file_rows L fs (log_path dir d))"
  let ?w = "\<lambda>d. process_file_chunk L fs (log_path dir d) f t g dims uf af 0 None"
  let ?pr = "\<lambda>d. (merge_partial [] (?em d), length (?em d))"
  have eng: "aggregate_data_parallel L fs dir order f t g dims uf af nt =
      merge_files (as_completed order (map ?w ?ex)) ([], 0, 0)"
    using dates nt ne by (rule engine_unfold)
  from quiet have "\<forall>d \<in> set dates.
      first_raise L f t g dims (filter_set uf) (filter_set af) (file_rows L fs (log_path dir d)) = None"
    by (simp add: all_rows_def first_raise_concat_None)
  then have w: "?w d = Inr (?pr d)" if "d \<in> set ?ex" for d
    using that by (simp add: process_file_chunk_whole existing_days_def)
  have futs: "map ?w ?ex = map Inr (map ?pr ?ex)"
    unfolding map_map by (rule map_cong [OF refl]) (simp add: w)
  have "mset (as_completed order (map ?w ?ex)) = mset (map ?w ?ex)"
    using order by (intro as_completed_perm) simp
  then have perm: "mset (as_completed order (map ?w ?ex)) = mset (map Inr (map ?pr ?ex))"
    by (simp only: futs)
  have wf: "\<forall>P \<in> set (map fst (map ?pr ?ex)). wf_table P"
    by (auto simp: wf_merge_partial wf_table_Nil)
  from merge_files_perm_ok [OF perm wf] obtain T where
    T: "merge_files (as_completed order (map ?w ?ex)) ([], 0, 0) =
          Inr (T, sum_list (map snd (map ?pr ?ex)), length (map ?pr ?ex))"
    and spec: "map_of T = merge_spec (map fst (map ?pr ?ex))"
    and keys: "fst ` set T = (\<Union>P \<in> set (map fst (map ?pr ?ex)). fst ` set P)"
    by blast
  have ar: "all_rows L fs dir ?ex = all_rows L fs dir dates" by (rule all_rows_existing)
  have rows: "sum_list (map snd (map ?pr ?ex)) =
      length (emitted L f t g dims (filter_set uf) (filter_set af) (all_rows L fs dir dates))"
  proof -
    have "sum_list (map snd (map ?pr ?ex)) =
        length (emitted L f t g dims (filter_set uf) (filter_set af) (all_rows L fs dir ?ex))"
      by (simp add: all_rows_def emitted_concat length_concat comp_def)
    then show ?thesis by (simp only: ar)
  qed
  have keys': "(\<Union>P \<in> set (map fst (map ?pr ?ex)). fst ` set P) =
      fst ` set (emitted L f t g dims (filter_set uf) (filter_set af) (all_rows L fs dir dates))"
  proof -
    have "(\<Union>P \<in> set (map fst (map ?pr ?ex)). fst ` set P) =
        fst ` set (emitted L f t g dims (filter_set uf) (filter_set af) (all_rows L fs dir ?ex))"
      by (simp add: all_rows_def emitted_concat keys_merge_partial image_UN)
    then show ?thesis by (simp only: ar)
  qed
  have spec': "map_of T = merge_spec (map (\<lambda>d. merge_partial [] (?em d)) ?ex)"
    using spec by (simp add: comp_def)
  have run: "aggregate_data_parallel L fs dir order f t g dims uf af nt =
      Inr (T, length (emitted L f t g dims (filter_set uf) (filter_set af) (all_rows L fs dir dates)),
           length ?ex)"
    using eng T rows by simp
  have keys'': "fst ` set T =
      fst ` set (emitted L f t g dims (filter_set uf) (filter_set af) (all_rows L fs dir dates))"
    using keys keys' by simp
  show ?thesis
    by (intro exI [of _ T] conjI) (rule futs, rule run, rule spec', rule keys'')
qed

lemma first_raise_Some_mem:
  "first_raise L f t g d us as rows = Some e \<Longrightarrow>
   \<exists>r \<in> set rows. chunk_row L f t g d us as r = Raise e"
  by (induction rows) (auto split: step.splits)

lemma engine_Inl_mem:
  assumes dates: "get_date_range L f t = Inr dates" and nt: "0 < nt" and ne: "dates \<noteq> []"
    and order: "mset order = mset [0..<length (existing_days fs dir dates)]"
    and run: "aggregate_data_parallel L fs dir order f t g dims uf af nt = Inl e"
  shows "\<exists>r \<in> set (all_rows L fs dir dates).
     chunk_row L f t g dims (filter_set uf) (filter_set af) r = Raise e"
proof -
  let ?w = "\<lambda>d. process_file_chunk L fs (log_path dir d) f t g dims uf af 0 None"
  let ?futs = "map ?w (existing_days fs dir dates)"
  have "aggregate_data_parallel L fs dir order f t g dims uf af nt =
      merge_files (as_completed order ?futs) ([], 0, 0)"
    using dates nt ne by (rule engine_unfold)
  with run have "Inl e \<in> set (as_completed order ?futs)"
    by (intro merge_files_Inl_mem [of _ "([], 0, 0)"]) simp
  moreover have "mset (as_completed order ?futs) = mset ?futs"
    using order by (intro as_completed_perm) simp
  then have "set (as_completed order ?futs) = set ?futs" by (rule mset_eq_setD)
  ultimately obtain d where d: "d \<in> set dates" and w: "?w d = Inl e"
    by (auto simp: existing_days_def)
  from w have "first_raise L f t g dims (filter_set uf) (filter_set af)
      (file_rows L fs (log_path dir d)) = Some e"
    by (simp add: process_file_chunk_whole split: option.splits)
  then obtain r where "r \<in> set (file_rows L fs (log_path dir d))"
    and "chunk_row L f t g dims (filter_set uf) (filter_set af) r = Raise e"
    using first_raise_Some_mem by blast
  with d show ?thesis by (auto simp: all_rows_def)
qed

lemma chunk_row_invalid_granularity:
  assumes "g \<noteq> ''30m''" and "g \<noteq> ''1day''"
  shows "chunk_row L f t g d us as r =
     (if passes L f t us as r then Raise (InvalidGranularity g) else Continue)"
  using assms
  by (simp add: chunk_row_def passes_def parse_datetime_def window_check get_period_start_def
      split: option.split)

lemma emitted_empty:
  assumes "\<forall>r \<in> set rows. \<forall>x. chunk_row L f t g d us as r \<noteq> Emit x"
  shows "emitted L f t g d us as rows = []"
  using assms by (induction rows) (auto simp: emitted_Nil emitted_Cons split: step.splits)

lemma make_key_no_dimensions: "make_key p [] u a = take 1 (make_key p d u a)"
  by (simp add: make_key_def)

lemma chunk_row_no_dimensions:
  "chunk_row L f t g [] us as r =
     (case chunk_row L f t g d us as r of
        Continue \<Rightarrow> Continue
      | Emit (k, ms) \<Rightarrow> Emit (take 1 k, ms)
      | Raise e \<Rightarrow> Raise e)"
  unfolding chunk_row_def make_key_no_dimensions [of _ _ _ d]
  by (simp split: option.split sum.split)

section \<open>The emitter\<close>

lemma getitem_lookup: "map_of t k = Some v \<Longrightarrow> getitem t k = v"
  by (simp add: getitem_def)

lemma sorted_keys_eq:
  assumes "distinct (map fst t)"
  shows "sort (map fst t) = sorted_list_of_set (dom (map_of t))"
proof -
  have "dom (map_of t) = set (map fst t)" by (simp add: dom_map_of_conv_image_fst)
  then have "sorted_list_of_set (dom (map_of t)) = sort (remdups (map fst t))"
    by (simp only: sorted_list_of_set_sort_remdups)
  with assms show ?thesis by (simp add: distinct_remdups_id)
qed

lemma write_results_rows:
  assumes "distinct (map fst t)"
  shows "snd (write_results t dims) =
     map (\<lambda>k. map Str k @ map Num (the (map_of t k))) (sorted_list_of_set (dom (map_of t)))"
proof -
  have fin: "finite (dom (map_of t))" by (rule finite_dom_map_of)
  have "map (\<lambda>k. map Str k @ map Num (getitem t k)) (sorted_list_of_set (dom (map_of t))) =
      map (\<lambda>k. map Str k @ map Num (the (map_of t k))) (sorted_list_of_set (dom (map_of t)))"
    using fin by (intro map_cong refl) (auto simp: getitem_def)
  then show ?thesis
    by (simp add: write_results_def Let_def sorted_keys_eq [OF assms])
qed

section \<open>Partitions of one input\<close>

lemma merge_parts:
  assumes whole: "chunk_loop L f t g d us as None (concat parts) ([], 0, 0) = Inr (T, R)"
    and order: "mset futures = mset (map (\<lambda>p. chunk_loop L f t g d us as None p ([], 0, 0)) parts)"
  shows "\<exists>prs T'. futures = map Inr prs
           \<and> merge_chunks futures ([], 0) = Inr (T', R)
           \<and> merge_files futures ([], 0, 0) = Inr (T', R, length parts)
           \<and> map_of T' = merge_spec (map fst prs)
           \<and> map_of T' = map_of T"
proof -
  let ?em = "emitted L f t g d us as"
  let ?w = "\<lambda>p. (merge_partial [] (?em p), length (?em p))"
  from whole have nr: "first_raise L f t g d us as (concat parts) = None"
    and T: "T = merge_partial [] (?em (concat parts))"
    and R: "R = length (?em (concat parts))"
    by (simp_all add: chunk_loop_None split: option.splits)
  from nr have "\<forall>p \<in> set parts. first_raise L f t g d us as p = None"
    by (simp add: first_raise_concat_None)
  then have "map (\<lambda>p. chunk_loop L f t g d us as None p ([], 0, 0)) parts = map Inr (map ?w parts)"
    by (simp add: chunk_loop_None)
  with order have "mset futures = mset (map Inr (map ?w parts))" by simp
  then obtain prs where prs: "futures = map Inr prs" and perm: "mset prs = mset (map ?w parts)"
    using futures_all_Inr by blast
  let ?T' = "merge_partial [] (concat (map fst prs))"
  have set_prs: "set prs = ?w ` set parts"
    using mset_eq_setD [OF perm] by simp
  have wf_prs: "\<forall>P \<in> set (map fst prs). wf_table P"
    using set_prs by (auto simp: wf_merge_partial wf_table_Nil)
  have rows: "sum_list (map snd prs) = R"
  proof -
    have "sum_list (map snd prs) = sum_list (map snd (map ?w parts))"
      using perm by (rule sum_list_mset_cong)
    also have "\<dots> = length (concat (map ?em parts))"
      by (simp add: length_concat comp_def)
    finally show ?thesis by (simp add: R emitted_concat)
  qed
  have len: "length prs = length parts"
    using mset_eq_length [OF perm] by simp
  have wfT: "wf_table T" "wf_table ?T'"
    by (simp_all add: T wf_merge_partial wf_table_Nil)
  have keys: "fst ` set ?T' = fst ` set T"
    by (simp add: T keys_merge_partial emitted_concat image_UN set_prs)
  have cells: "cell_at ?T' k i = cell_at T k i" if "i < 9" for k i
  proof -
    have z: "cell_at [] k i = 0" by (simp add: cell_at_def)
    have "cell_at ?T' k i = sum_list (map (\<lambda>P. cell_at P k i) (map fst prs))"
      using wf_prs that by (rule cell_merge_concat)
    also have "\<dots> = sum_list (map (\<lambda>pr. cell_at (fst pr) k i) prs)"
      by (simp add: comp_def)
    also have "\<dots> = sum_list (map (\<lambda>pr. cell_at (fst pr) k i) (map ?w parts))"
      using perm by (rule sum_list_mset_cong)
    also have "\<dots> = sum_list (map (\<lambda>p. event_sum (?em p) k i) parts)"
      using that z by (simp add: comp_def cell_merge_partial)
    also have "\<dots> = event_sum (?em (concat parts)) k i"
      by (simp add: emitted_concat event_sum_concat comp_def)
    also have "\<dots> = cell_at T k i"
      using that z by (simp add: T cell_merge_partial)
    finally show ?thesis .
  qed
  have "map_of ?T' = map_of T"
    using wfT(2) wfT(1) keys cells by (rule table_eqI)
  moreover have "map_of ?T' = merge_spec (map fst prs)"
    using wf_prs by (rule merge_refines_spec)
  moreover have "merge_chunks futures ([], 0) = Inr (?T', R)"
    by (simp add: prs merge_chunks_Inr rows)
  moreover have "merge_files futures ([], 0, 0) = Inr (?T', R, length parts)"
    by (simp add: prs merge_files_Inr rows len)
  ultimately show ?thesis using prs by blast
qed

lemma whole_returns_iff_parts_return:
  "(\<exists>res. chunk_loop L f t g d us as None (concat parts) ([], 0, 0) = Inr res) \<longleftrightarrow>
     (\<forall>p \<in> set parts. \<exists>res. chunk_loop L f t g d us as None p ([], 0, 0) = Inr res)"
proof -
  have "(\<exists>res. chunk_loop L f t g d us as None rows ([], 0, 0) = Inr res) \<longleftrightarrow>
      first_raise L f t g d us as rows = None" for rows
    by (simp add: chunk_loop_None split: option.split)
  then show ?thesis by (simp add: first_raise_concat_None)
qed


section \<open>Evaluation of the sample inputs\<close>

lemma upt_0_9: "[0..<9] = [0, 1, 2, 3, 4, 5, 6, 7, 8]"
  by code_simp

lemma replicate_9: "replicate 9 x = [x, x, x, x, x, x, x, x, x]"
  by (simp add: numeral_eq_Suc)

lemma add_vec_eval:
  "add_vec [a0, a1, a2, a3, a4, a5, a6, a7, a8] [b0, b1, b2, b3, b4, b5, b6, b7, b8] =
     [a0 + b0, a1 + b1, a2 + b2, a3 + b3, a4 + b4, a5 + b5, a6 + b6, a7 + b7, a8 + b8]"
  by (simp add: add_vec_def upt_0_9)

lemmas sample_simps = sample_lib_def sample_row_def mk_dt_def jan1_def jan2_def jan3_def
  row_u1_1_def row_u1_2_def row_at_from_def row_at_to_def row_short_def row_bad_metric_def
  row_bad_def read_row_def parse_row_def
  line_u1_1_def line_short_def line_at_to_def quoted_head_def quoted_tail_def row_quoted_def
  chunk_row_def rejected_def parse_datetime_def dt_lt_def dt_ge_def dt_tuple_def
  get_period_start_def parse_metrics_def make_key_def chunk_done_def add_vec_eval replicate_9

lemma sample_dates:
  "get_date_range sample_lib jan1 jan3 = Inr [''2025-01-01'', ''2025-01-02'', ''2025-01-03'']"
proof -
  have "ordinal jan3 < max_ordinal" by (simp add: jan3_def mk_dt_def max_ordinal_def)
  then show ?thesis
    by (simp add: get_date_range_eq jan1_def jan3_def mk_dt_def sample_lib_def upt_rec [of 739252]
        upt_rec [of 739253] upt_rec [of 739254] del: upt_Suc)
qed

lemma sample_existing:
  "existing_days sample_fs ''logs'' [''2025-01-01'', ''2025-01-02'', ''2025-01-03''] =
     [''2025-01-01'', ''2025-01-03'']"
  by (simp add: existing_days_def log_path_def sample_fs_def)

lemma sample_all_rows:
  "all_rows sample_lib sample_fs ''logs'' [''2025-01-01'', ''2025-01-02'', ''2025-01-03''] =
     [row_u1_1, row_short, row_at_to]"
  by (simp add: all_rows_def file_rows_def log_path_def sample_fs_def sample_simps)

lemmas engine_simps = Let_def log_path_def sample_fs_def
  as_completed_def process_file_chunk_def filter_set_def merge_partial_def

lemma sample_run:
  "aggregate_data_parallel sample_lib sample_fs ''logs'' [1, 0] jan1 jan3 ''1day'' [''user'']
       None None 4 = Inr ([([''2025-01-01 00:00:00'', ''u1''], [1, 1, 1, 1, 1, 1, 1, 1, 1])], 1, 2)"
  by (simp only: aggregate_data_parallel_def sample_dates) (simp add: engine_simps sample_simps)

lemma sample_order:
  "mset [1, 0] =
   mset [0..<length (existing_days sample_fs ''logs'' [''2025-01-01'', ''2025-01-02'', ''2025-01-03''])]"
  by (simp add: sample_existing upt_rec [of 0] upt_rec [of 1] del: upt_Suc)

lemma sample_tables:
  "wf_table table_a" "wf_table table_b" "map_of table_a = map_of table_b"
  by (auto simp: wf_table_def table_a_def table_b_def fun_eq_iff)

lemma sample_output:
  "write_results table_a [''user''] =
     ([''timestamp'', ''user'', ''metric_1'', ''metric_2'', ''metric_3'', ''metric_4'',
       ''metric_5'', ''metric_6'', ''metric_7'', ''metric_8'', ''metric_9''],
      [[Str ''2025-01-01 00:00:00'', Str ''u2'',
        Num 1, Num 1, Num 1, Num 1, Num 1, Num 1, Num 1, Num 1, Num 1],
       [Str ''2025-01-02 00:00:00'', Str ''u1'',
        Num 2, Num 2, Num 2, Num 2, Num 2, Num 2, Num 2, Num 2, Num 2]])"
  by (simp add: write_results_def Let_def table_a_def getitem_def METRIC_COLUMNS_def
      less_char_def less_eq_char_def)

text \<open>
  Three files of at least 100000 lines: two with one record per line, and one whose first
  record has a quoted field with a line break in it and so takes two lines.
\<close>

lemma rows_matched_Inr: "rows_matched (Inr (T, n)) = Some n"
  by (simp add: rows_matched_def)

lemma sample_extra_plain: "csv_extra sample_lib (line_u1_1 # ls) = 0"
  by (simp add: sample_lib_def line_u1_1_def quoted_head_def)

lemma sample_fields_plain: "csv_fields sample_lib [line_u1_1] = row_u1_1"
  by (simp add: sample_lib_def)

lemma sample_reader_plain:
  "csv_reader sample_lib (replicate n line_u1_1) = replicate n row_u1_1"
  by (induction n) (simp_all add: sample_extra_plain sample_fields_plain)

lemma one_record_per_line_Nil: "one_record_per_line L []"
  by (simp add: one_record_per_line_def)

lemma sample_one_record: "one_record_per_line sample_lib (replicate n line_u1_1)"
proof (induction n)
  case 0
  then show ?case by (simp add: one_record_per_line_Nil)
next
  case (Suc n)
  then show ?case
    unfolding replicate_Suc one_record_per_line_Cons by (simp add: sample_extra_plain)
qed


lemma sample_emit_plain:
  "\<exists>x. chunk_row sample_lib jan1 jan3 ''1day'' [''user''] (filter_set None) (filter_set None)
         row_u1_1 = Emit x"
  by (simp add: sample_simps filter_set_def)


lemma sample_rows_emit:
  "\<forall>r \<in> set (replicate n row_u1_1).
     \<exists>x. chunk_row sample_lib jan1 jan3 ''1day'' [''user''] (filter_set None) (filter_set None)
           r = Emit x"
  using sample_emit_plain by simp


lemma sample_chunk_plain:
  "\<exists>T. chunk_loop sample_lib jan1 jan3 ''1day'' [''user''] (filter_set None) (filter_set None)
         None (replicate n row_u1_1) ([], 0, 0) = Inr (T, n)"
  using chunk_loop_all_emit [OF sample_rows_emit, of n] by simp


lemma big_fs_lookup:
  "big_fs ''plain.csv'' = Some plain_file"
  "big_fs ''longer.csv'' = Some longer_file"
  "big_fs ''quoted.csv'' = Some quoted_file"
  by (simp_all add: big_fs_def)

lemma plain_file_facts:
  "length plain_file = 100000" "one_record_per_line sample_lib plain_file"
  unfolding plain_file_def by (simp, rule sample_one_record)

lemma longer_file_facts:
  "length longer_file = 100001" "one_record_per_line sample_lib longer_file"
  unfolding longer_file_def by (simp, rule sample_one_record)

lemma sample_lines_quoted:
  "lines_consumed sample_lib (Suc k) (quoted_head # quoted_tail # ls) =
     2 + lines_consumed sample_lib k ls"
  by (simp add: sample_lib_def)

lemma sample_lines_plain:
  "lines_consumed sample_lib k (replicate n line_u1_1) = min k n"
  using sample_one_record [of n] by (simp add: lines_consumed_one_record)

lemma upt_0_2: "[0..<2] = [0, 1]"
  by code_simp


lemma plan_100000_2: "chunk_plan 100000 2 = [(0, 50000), (50000, 50000)]"
  by (simp add: chunk_plan_def chunk_size_of_def Let_def upt_0_2 del: upt_Suc)





lemma longer_tail_chunk:
  "\<exists>T. process_file_chunk sample_lib big_fs ''longer.csv'' jan1 jan3 ''1day'' [''user'']
         None None 99990 (Some 101) = Inr (T, 11)"
proof -
  have "process_file_chunk sample_lib big_fs ''longer.csv'' jan1 jan3 ''1day'' [''user'']
         None None 99990 (Some 101) =
      chunk_loop sample_lib jan1 jan3 ''1day'' [''user''] (filter_set None) (filter_set None)
        None (replicate 11 row_u1_1) ([], 0, 0)"
    by (simp add: process_file_chunk_def big_fs_lookup longer_file_def sample_reader_plain
        chunk_loop_Some del: chunk_loop.simps csv_reader.simps)
  with sample_chunk_plain [of 11] show ?thesis
    by (simp del: chunk_loop.simps csv_reader.simps)
qed

lemma quoted_first_lines: "worker_lines sample_lib quoted_file (0, 50000) = {0..<50001}"
proof -
  have "lines_consumed sample_lib (Suc 49999) (quoted_head # quoted_tail #
      replicate 99998 line_u1_1) = 50001"
    unfolding sample_lines_quoted sample_lines_plain by simp
  then show ?thesis
    by (simp add: worker_lines_def quoted_file_def del: lines_consumed.simps)
qed


lemma longer_tail_lines:
  "worker_lines sample_lib longer_file (99990, 101) = {99990..<100001}"
proof -
  have "drop 99990 longer_file = replicate 11 line_u1_1"
    by (simp add: longer_file_def)
  then show ?thesis
    by (simp add: worker_lines_def sample_lines_plain del: lines_consumed.simps)
qed

section \<open>Claims\<close>

text \<open>
  C1. Merge is order-independent and partition-independent. Let a sequence of rows be split
  into contiguous partitions in any way (a single partition included), let every partition
  be folded by the worker loop into a private table, and let the partial results reach the
  reducer in any order. If processing the whole sequence as one partition returns the
  table \<open>T\<close> and the count \<open>R\<close>, then every partial result is a table, both merge loops
  (of \<^verbatim>\<open>process_file_parallel\<close> and of \<^verbatim>\<open>aggregate_data_parallel\<close>) return the element-wise sum
  of the partial tables, a key absent from a table counting as the zero vector, and that
  table is the same dictionary as \<open>T\<close>, with the same count \<open>R\<close>.
\<close>

theorem merge_partition_independent:
  assumes whole: "chunk_loop L f t g d us as None (concat parts) ([], 0, 0) = Inr (T, R)"
    and order: "mset futures = mset (map (\<lambda>p. chunk_loop L f t g d us as None p ([], 0, 0)) parts)"
  shows "\<exists>prs T'. futures = map Inr prs
           \<and> merge_chunks futures ([], 0) = Inr (T', R)
           \<and> merge_files futures ([], 0, 0) = Inr (T', R, length parts)
           \<and> map_of T' = merge_spec (map fst prs)
           \<and> map_of T' = map_of T"
  using assms by (rule merge_parts)

theorem merge_partition_independent_witness:
  "\<exists>prs T'.
     sample_futures = map Inr prs
     \<and> merge_chunks sample_futures ([], 0) = Inr (T', 2)
     \<and> merge_files sample_futures ([], 0, 0) = Inr (T', 2, length [[row_u1_1], [row_u1_2]])
     \<and> map_of T' = merge_spec (map fst prs)
     \<and> map_of T' = map_of [([''2025-01-01 00:00:00'', ''u1''], [3, 3, 3, 3, 3, 3, 3, 3, 3])]"
proof -
  have whole: "chunk_loop sample_lib jan1 jan3 ''1day'' [''user''] None None None
      (concat [[row_u1_1], [row_u1_2]]) ([], 0, 0)
      = Inr ([([''2025-01-01 00:00:00'', ''u1''], [3, 3, 3, 3, 3, 3, 3, 3, 3])], 2)"
    by (simp add: sample_simps)
  have order: "mset sample_futures
      = mset (map (\<lambda>p. chunk_loop sample_lib jan1 jan3 ''1day'' [''user''] None None None p ([], 0, 0))
               [[row_u1_1], [row_u1_2]])"
    by (simp add: sample_simps sample_futures_def)
  show ?thesis by (rule merge_partition_independent [OF whole order])
qed

text \<open>
  C10. An empty filter collection disables filtering: with an empty user-filter list (or an
  empty app-filter list) \<^verbatim>\<open>process_file_chunk\<close> and \<^verbatim>\<open>read_log_file\<close> return what they return with
  no filter at all, because the empty list is mapped to the no-filter case before any
  membership test; the filter set made from an empty list rejects no value.
\<close>

theorem empty_filter_is_no_filter:
  "process_file_chunk L fs p f t g d (Some []) af cs cz =
     process_file_chunk L fs p f t g d None af cs cz
   \<and> process_file_chunk L fs p f t g d uf (Some []) cs cz =
     process_file_chunk L fs p f t g d uf None cs cz
   \<and> read_log_file L fs p f t (Some []) af = read_log_file L fs p f t None af
   \<and> read_log_file L fs p f t uf (Some []) = read_log_file L fs p f t uf None
   \<and> \<not> rejected (filter_set (Some [])) x"
  unfolding process_file_chunk_def read_log_file_def filter_set_empty
  by (simp add: filter_set_def rejected_def)

theorem empty_filter_is_no_filter_witness:
  "process_file_chunk sample_lib sample_fs ''logs/2025-01-01.log.csv'' jan1 jan3 ''1day'' [''user'']
      (Some []) (Some [''a1'']) 0 None =
     process_file_chunk sample_lib sample_fs ''logs/2025-01-01.log.csv'' jan1 jan3 ''1day'' [''user'']
      None (Some [''a1'']) 0 None
   \<and> process_file_chunk sample_lib sample_fs ''logs/2025-01-01.log.csv'' jan1 jan3 ''1day'' [''user'']
      (Some [''u1'']) (Some []) 0 None =
     process_file_chunk sample_lib sample_fs ''logs/2025-01-01.log.csv'' jan1 jan3 ''1day'' [''user'']
      (Some [''u1'']) None 0 None
   \<and> read_log_file sample_lib sample_fs ''logs/2025-01-01.log.csv'' jan1 jan3 (Some []) (Some [''a1'']) =
     read_log_file sample_lib sample_fs ''logs/2025-01-01.log.csv'' jan1 jan3 None (Some [''a1''])
   \<and> read_log_file sample_lib sample_fs ''logs/2025-01-01.log.csv'' jan1 jan3 (Some [''u1'']) (Some []) =
     read_log_file sample_lib sample_fs ''logs/2025-01-01.log.csv'' jan1 jan3 (Some [''u1'']) None
   \<and> \<not> rejected (filter_set (Some [])) ''u1''"
  by (rule empty_filter_is_no_filter)

text \<open>
  C5. Half-open time window. For a row with at least 12 fields that passes the user and app
  filters and whose timestamp parses to \<open>ts\<close>, the time filter of \<^verbatim>\<open>process_file_chunk\<close> lets
  the row through exactly when \<open>from \<le> ts < to\<close>, and so does the one of \<^verbatim>\<open>read_log_file\<close>
  (whose metrics are parsed before). The instance below takes a row whose timestamp equals
  \<open>from\<close>, which is included, and a row whose timestamp equals \<open>to\<close>, which is excluded.
\<close>

theorem window_half_open:
  assumes "12 \<le> length r" and "\<not> rejected us (r ! 1)" and "\<not> rejected as (r ! 2)"
    and "strptime L (r ! 0) = Some ts"
  shows "(chunk_row L f t g d us as r = Continue \<longleftrightarrow>
            \<not> (dt_tuple f \<le> dt_tuple ts \<and> dt_tuple ts < dt_tuple t))
       \<and> read_row L f t us as r =
           (case parse_row L r of
              Inl e \<Rightarrow> Raise e
            | Inr p \<Rightarrow> if dt_tuple f \<le> dt_tuple ts \<and> dt_tuple ts < dt_tuple t
                       then Emit (p, ts) else Continue)
       \<and> (passes L f t us as r \<longleftrightarrow> dt_tuple f \<le> dt_tuple ts \<and> dt_tuple ts < dt_tuple t)"
proof -
  have p: "passes L f t us as r \<longleftrightarrow> dt_tuple f \<le> dt_tuple ts \<and> dt_tuple ts < dt_tuple t"
    using assms by (simp add: passes_def in_window_def)
  have c: "chunk_row L f t g d us as r = Continue \<longleftrightarrow>
      \<not> (dt_tuple f \<le> dt_tuple ts \<and> dt_tuple ts < dt_tuple t)"
    unfolding chunk_row_Continue_iff p ..
  have r: "read_row L f t us as r =
      (case parse_row L r of
         Inl e \<Rightarrow> Raise e
       | Inr p \<Rightarrow> if dt_tuple f \<le> dt_tuple ts \<and> dt_tuple ts < dt_tuple t
                  then Emit (p, ts) else Continue)"
  proof (cases "parse_metrics L r")
    case (Inl e)
    with assms(1) show ?thesis by (simp add: read_row_def parse_row_def)
  next
    case (Inr ms)
    with assms show ?thesis
      by (simp add: read_row_def parse_row_def parse_datetime_def window_check in_window_def)
  qed
  from c r p show ?thesis by blast
qed

theorem window_half_open_witness:
  "chunk_row sample_lib jan1 jan3 ''1day'' [''user''] None None row_at_from \<noteq> Continue
   \<and> (\<exists>p. read_row sample_lib jan1 jan3 None None row_at_from = Emit (p, jan1))
   \<and> passes sample_lib jan1 jan3 None None row_at_from
   \<and> chunk_row sample_lib jan1 jan3 ''1day'' [''user''] None None row_at_to = Continue
   \<and> read_row sample_lib jan1 jan3 None None row_at_to = Continue
   \<and> \<not> passes sample_lib jan1 jan3 None None row_at_to"
proof -
  have a: "12 \<le> length row_at_from" "\<not> rejected None (row_at_from ! 1)"
    "\<not> rejected None (row_at_from ! 2)" "strptime sample_lib (row_at_from ! 0) = Some jan1"
    by (simp_all add: sample_simps)
  have b: "12 \<le> length row_at_to" "\<not> rejected None (row_at_to ! 1)"
    "\<not> rejected None (row_at_to ! 2)" "strptime sample_lib (row_at_to ! 0) = Some jan3"
    by (simp_all add: sample_simps)
  have pa: "\<exists>p. parse_row sample_lib row_at_from = Inr p"
    and pb: "\<exists>p. parse_row sample_lib row_at_to = Inr p"
    by (simp_all add: sample_simps)
  have w: "dt_tuple jan1 \<le> dt_tuple jan1" "dt_tuple jan1 < dt_tuple jan3"
    "\<not> dt_tuple jan3 < dt_tuple jan3"
    by (simp_all add: sample_simps)
  from window_half_open [OF a, of jan1 jan3 "''1day''" "[''user'']"]
    window_half_open [OF b, of jan1 jan3 "''1day''" "[''user'']"] pa pb w
  show ?thesis by auto
qed

text \<open>
  C4, as stated, fails: the sample row below has 12 fields, a timestamp that does not parse
  and a metric field that is no integer. \<^verbatim>\<open>process_file_chunk\<close> drops it silently although it
  contains a malformed metric, and \<^verbatim>\<open>read_log_file\<close> raises on it although its timestamp is
  unparseable.
\<close>

theorem parse_error_taxonomy_counterexample:
  "12 \<le> length row_bad
   \<and> strptime sample_lib (row_bad ! 0) = None
   \<and> int_of_str sample_lib (row_bad ! 3) = None
   \<and> chunk_row sample_lib jan1 jan3 ''30m'' [''user''] None None row_bad = Continue
   \<and> chunk_loop sample_lib jan1 jan3 ''30m'' [''user''] None None None [row_bad] ([], 0, 0)
       = Inr ([], 0)
   \<and> read_row sample_lib jan1 jan3 None None row_bad = Raise (InvalidLiteral ''x'')"
  by (simp add: sample_simps)

text \<open>
  C4, amended. In \<^verbatim>\<open>process_file_chunk\<close> a row is silently dropped exactly when it fails one
  of the checks of the filter (field count, user, app, timestamp, window), in particular
  when it has fewer than 12 fields or an unparseable timestamp, whatever its metric fields
  hold. A row raises exactly when it passes these checks and either the granularity is
  invalid or one of its metric fields is no integer, and the worker returns an error
  exactly when one of its rows raises. In \<^verbatim>\<open>read_log_file\<close>, which parses the metrics first, a
  row with fewer than 12 fields is silently dropped and a row raises exactly when it has
  at least 12 fields and a metric field that is no integer.
\<close>

theorem parse_error_taxonomy:
  "(chunk_row L f t g d us as r = Continue \<longleftrightarrow> \<not> passes L f t us as r)
   \<and> (length r < 12 \<or> strptime L (r ! 0) = None \<longrightarrow> chunk_row L f t g d us as r = Continue)
   \<and> ((\<exists>e. chunk_row L f t g d us as r = Raise e) \<longleftrightarrow>
        passes L f t us as r \<and> ((g \<noteq> ''30m'' \<and> g \<noteq> ''1day'') \<or> malformed_metric L r))
   \<and> ((\<exists>e. chunk_loop L f t g d us as None rows st = Inl e) \<longleftrightarrow>
        (\<exists>r' \<in> set rows. \<exists>e. chunk_row L f t g d us as r' = Raise e))
   \<and> (length r < 12 \<longrightarrow> read_row L f t us as r = Continue)
   \<and> ((\<exists>e. read_row L f t us as r = Raise e) \<longleftrightarrow> 12 \<le> length r \<and> malformed_metric L r)"
proof -
  have "length r < 12 \<or> strptime L (r ! 0) = None \<Longrightarrow> \<not> passes L f t us as r"
    by (auto simp: passes_def)
  moreover have "length r < 12 \<Longrightarrow> read_row L f t us as r = Continue"
    by (simp add: read_row_def)
  ultimately show ?thesis
    using chunk_row_Continue_iff [of L f t g d us as r] chunk_row_Raise_iff [of L f t g d us as r]
      chunk_loop_Inl_iff [of L f t g d us as rows st] read_row_Raise_iff [of L f t us as r]
    by blast
qed

theorem parse_error_taxonomy_witness:
  "chunk_row sample_lib jan1 jan3 ''30m'' [''user''] None None row_short = Continue
   \<and> read_row sample_lib jan1 jan3 None None row_short = Continue
   \<and> (\<exists>e. chunk_row sample_lib jan1 jan3 ''30m'' [''user''] None None row_bad_metric = Raise e)
   \<and> (\<exists>e. chunk_loop sample_lib jan1 jan3 ''30m'' [''user''] None None None
              [row_u1_1, row_bad_metric] ([], 0, 0) = Inl e)
   \<and> (\<exists>e. read_row sample_lib jan1 jan3 None None row_bad_metric = Raise e)"
proof -
  have s: "length row_short < 12" by (simp add: sample_simps)
  have l: "12 \<le> length row_bad_metric" by (simp add: sample_simps)
  have p: "passes sample_lib jan1 jan3 None None row_bad_metric"
    by (simp add: passes_def in_window_def sample_simps)
  have "int_of_str sample_lib (row_bad_metric ! 3) = None" by (simp add: sample_simps)
  then have m: "malformed_metric sample_lib row_bad_metric"
    unfolding malformed_metric_def by (intro bexI [of _ 3]) simp_all
  have i: "row_bad_metric \<in> set [row_u1_1, row_bad_metric]" by simp
  from parse_error_taxonomy [of sample_lib jan1 jan3 "''30m''" "[''user'']" None None row_short]
    parse_error_taxonomy [of sample_lib jan1 jan3 "''30m''" "[''user'']" None None row_bad_metric
      "[row_u1_1, row_bad_metric]" "([], 0, 0)"]
    s l p m i
  show ?thesis by blast
qed




text \<open>
  C3, as stated, fails: for a file of 100001 lines, one record each, and 1000 workers the
  chunk bound is \<open>ceil(100001 / 1000) = 101\<close>, and partition 990, one of the first \<open>N - 1\<close>,
  holds the 11 lines 99990 to 100000 (the partitions after it are empty, since
  \<open>999 * 101 > 100001\<close>). And for the file of 100000 lines whose first record takes two
  lines, with 2 workers, the bound is 50000 and the first worker processes 50001 lines.
\<close>

theorem chunk_sizes_counterexample:
  "length longer_file = 100001
   \<and> one_record_per_line sample_lib longer_file
   \<and> (990::nat) < 1000 - 1
   \<and> int (chunk_size_of (length longer_file) 1000) = \<lceil>real (length longer_file) / real 1000\<rceil>
   \<and> chunk_size_of (length longer_file) 1000 = 101
   \<and> chunk_plan (length longer_file) 1000 ! 990 = (99990, 101)
   \<and> worker_lines sample_lib longer_file (chunk_plan (length longer_file) 1000 ! 990) =
       {99990..<100001}
   \<and> card (worker_lines sample_lib longer_file (chunk_plan (length longer_file) 1000 ! 990)) = 11
   \<and> rows_matched (process_file_chunk sample_lib big_fs ''longer.csv'' jan1 jan3 ''1day''
         [''user''] None None 99990 (Some 101)) = Some 11
   \<and> chunk_size_of (length quoted_file) 2 = 50000
   \<and> card (worker_lines sample_lib quoted_file (chunk_plan (length quoted_file) 2 ! 0)) = 50001"
proof -
  have qlen: "length quoted_file = 100000" by (simp add: quoted_file_def)
  have qsize: "chunk_size_of (length quoted_file) 2 = 50000"
    by (simp add: qlen chunk_size_of_def)
  have qcard: "card (worker_lines sample_lib quoted_file
      (chunk_plan (length quoted_file) 2 ! 0)) = 50001"
    unfolding qlen plan_100000_2 by (simp add: quoted_first_lines)
  have size: "chunk_size_of (length longer_file) 1000 = 101"
    by (simp add: longer_file_facts(1) chunk_size_of_def)
  have ceil: "int (chunk_size_of (length longer_file) 1000) =
      \<lceil>real (length longer_file) / real 1000\<rceil>"
    by (rule chunk_size_ceiling) (simp_all add: longer_file_facts(1))
  have plan: "chunk_plan (length longer_file) 1000 ! 990 = (99990, 101)"
    by (simp add: nth_chunk_plan size)
  have range: "worker_lines sample_lib longer_file (chunk_plan (length longer_file) 1000 ! 990)
      = {99990..<100001}"
    unfolding plan by (rule longer_tail_lines)
  have card: "card (worker_lines sample_lib longer_file
      (chunk_plan (length longer_file) 1000 ! 990)) = 11"
    unfolding range by simp
  from longer_tail_chunk obtain T where
    "process_file_chunk sample_lib big_fs ''longer.csv'' jan1 jan3 ''1day'' [''user'']
       None None 99990 (Some 101) = Inr (T, 11)" ..
  then have rows: "rows_matched (process_file_chunk sample_lib big_fs ''longer.csv'' jan1 jan3
      ''1day'' [''user''] None None 99990 (Some 101)) = Some 11"
    by (simp only: rows_matched_Inr)
  have i: "(990::nat) < 1000 - 1" by simp
  show ?thesis
    by (intro conjI) (rule longer_file_facts(1), rule longer_file_facts(2), rule i, rule ceil,
      rule size, rule plan, rule range, rule card, rule rows, rule qsize, rule qcard)
qed

text \<open>
  C3, amended. For a file with one record per line, \<open>n \<ge> 100000\<close> lines and \<open>N \<ge> 2\<close>
  workers, the planner produces exactly \<open>N\<close> partitions, each with the bound
  \<open>c = ceil(n / N)\<close>; partition \<open>i\<close> starts at line \<open>i * c\<close>, its worker processes exactly
  \<open>min c (n - i * c)\<close> lines, none when \<open>i * c \<ge> n\<close>, and runs its loop over the records of
  these lines. When \<open>(N - 1) * c \<le> n\<close>, the first \<open>N - 1\<close> partitions contain exactly \<open>c\<close> lines
  each and the last one the remaining \<open>n - (N - 1) * c\<close> lines.
\<close>

theorem chunk_sizes:
  assumes exists: "fs p = Some lines" and n: "100000 \<le> length lines" and N: "2 \<le> N"
    and single: "one_record_per_line L lines"
  shows "length (chunk_plan (length lines) N) = N
    \<and> int (chunk_size_of (length lines) N) = \<lceil>real (length lines) / real N\<rceil>
    \<and> (\<forall>i<N. chunk_plan (length lines) N ! i =
            (i * chunk_size_of (length lines) N, chunk_size_of (length lines) N)
          \<and> card (worker_lines L lines (chunk_plan (length lines) N ! i)) =
            min (chunk_size_of (length lines) N)
              (length lines - i * chunk_size_of (length lines) N)
          \<and> length (chunk_lines lines (chunk_plan (length lines) N ! i)) =
            min (chunk_size_of (length lines) N)
              (length lines - i * chunk_size_of (length lines) N)
          \<and> process_file_chunk L fs p f t g d uf af (i * chunk_size_of (length lines) N)
              (Some (chunk_size_of (length lines) N)) =
            chunk_loop L f t g d (filter_set uf) (filter_set af) None
              (rows_of_lines L (chunk_lines lines (chunk_plan (length lines) N ! i)))
              ([], 0, 0))
    \<and> ((N - 1) * chunk_size_of (length lines) N \<le> length lines \<longrightarrow>
          (\<forall>i<N - 1. card (worker_lines L lines (chunk_plan (length lines) N ! i)) =
              chunk_size_of (length lines) N)
          \<and> card (worker_lines L lines (chunk_plan (length lines) N ! (N - 1))) =
              length lines - (N - 1) * chunk_size_of (length lines) N)"
proof -
  let ?n = "length lines"
  let ?c = "chunk_size_of ?n N"
  from N have N0: "0 < N" by simp
  from n have n0: "0 < ?n" by linarith
  have pos: "0 < ?c" using N0 n0 by (rule chunk_size_pos)
  have wc: "card (worker_lines L lines (chunk_plan ?n N ! i)) = min ?c (?n - i * ?c)"
    if "i < N" for i
  proof -
    from that have "chunk_plan ?n N ! i \<in> set (chunk_plan ?n N)"
      by (intro nth_mem) (simp add: length_chunk_plan)
    with pos have "snd (chunk_plan ?n N ! i) \<noteq> 0" by (rule plan_chunk_size)
    with single have "worker_lines L lines (chunk_plan ?n N ! i) =
        chunk_range ?n (chunk_plan ?n N ! i)"
      by (rule worker_lines_one_record)
    with that show ?thesis by (simp only: card_chunk_range)
  qed
  have full: "min ?c (?n - i * ?c) = ?c" if "(N - 1) * ?c \<le> ?n" "i < N - 1" for i
  proof -
    from that(2) have "Suc i \<le> N - 1" by simp
    then have "Suc i * ?c \<le> (N - 1) * ?c" by (rule mult_le_mono1)
    with that(1) have "i * ?c + ?c \<le> ?n" by simp
    then show ?thesis by simp
  qed
  have last: "min ?c (?n - (N - 1) * ?c) = ?n - (N - 1) * ?c"
  proof -
    have "?n \<le> N * ?c" using N0 by (rule chunk_size_covers)
    also have "N * ?c = (N - 1) * ?c + ?c" using N0 by (cases N) simp_all
    finally show ?thesis by simp
  qed
  have a: "length (chunk_plan ?n N) = N" by (rule length_chunk_plan)
  have b: "int ?c = \<lceil>real ?n / real N\<rceil>"
    using N0 n0 by (rule chunk_size_ceiling)
  have c: "\<forall>i<N. chunk_plan ?n N ! i = (i * ?c, ?c)
      \<and> card (worker_lines L lines (chunk_plan ?n N ! i)) = min ?c (?n - i * ?c)
      \<and> length (chunk_lines lines (chunk_plan ?n N ! i)) = min ?c (?n - i * ?c)
      \<and> process_file_chunk L fs p f t g d uf af (i * ?c) (Some ?c) =
          chunk_loop L f t g d (filter_set uf) (filter_set af) None
            (rows_of_lines L (chunk_lines lines (chunk_plan ?n N ! i))) ([], 0, 0)"
  proof (intro allI impI)
    fix i assume i: "i < N"
    then have p: "chunk_plan ?n N ! i = (i * ?c, ?c)" by (rule nth_chunk_plan)
    from pos have "snd (i * ?c, ?c) \<noteq> 0" by simp
    with exists have "process_file_chunk L fs p f t g d uf af (fst (i * ?c, ?c))
        (Some (snd (i * ?c, ?c))) =
      chunk_loop L f t g d (filter_set uf) (filter_set af) None
        (rows_of_lines L (chunk_lines lines (i * ?c, ?c))) ([], 0, 0)"
      using single by (rule process_file_chunk_lines)
    then have w: "process_file_chunk L fs p f t g d uf af (i * ?c) (Some ?c) =
      chunk_loop L f t g d (filter_set uf) (filter_set af) None
        (rows_of_lines L (chunk_lines lines (chunk_plan ?n N ! i))) ([], 0, 0)"
      unfolding p by (simp only: fst_conv snd_conv)
    from p wc [OF i] length_chunk_lines [OF i] w
    show "chunk_plan ?n N ! i = (i * ?c, ?c)
      \<and> card (worker_lines L lines (chunk_plan ?n N ! i)) = min ?c (?n - i * ?c)
      \<and> length (chunk_lines lines (chunk_plan ?n N ! i)) = min ?c (?n - i * ?c)
      \<and> process_file_chunk L fs p f t g d uf af (i * ?c) (Some ?c) =
          chunk_loop L f t g d (filter_set uf) (filter_set af) None
            (rows_of_lines L (chunk_lines lines (chunk_plan ?n N ! i))) ([], 0, 0)"
      by (intro conjI)
  qed
  have d: "(N - 1) * ?c \<le> ?n \<longrightarrow>
      (\<forall>i<N - 1. card (worker_lines L lines (chunk_plan ?n N ! i)) = ?c)
      \<and> card (worker_lines L lines (chunk_plan ?n N ! (N - 1))) = ?n - (N - 1) * ?c"
  proof (intro impI conjI allI)
    fix i assume h: "(N - 1) * ?c \<le> ?n" "i < N - 1"
    from h(2) have "i < N" by simp
    then show "card (worker_lines L lines (chunk_plan ?n N ! i)) = ?c"
      using full [OF h] by (simp only: wc)
  next
    from N0 have "N - 1 < N" by simp
    then show "card (worker_lines L lines (chunk_plan ?n N ! (N - 1))) = ?n - (N - 1) * ?c"
      using last by (simp only: wc)
  qed
  show ?thesis
    by (intro conjI) (rule a, rule b, rule c, rule d)
qed

theorem chunk_sizes_witness:
  "big_fs ''plain.csv'' = Some plain_file
   \<and> 100000 \<le> length plain_file
   \<and> one_record_per_line sample_lib plain_file
   \<and> length (chunk_plan (length plain_file) 4) = 4
   \<and> int (chunk_size_of (length plain_file) 4) = \<lceil>real (length plain_file) / real 4\<rceil>
   \<and> card (worker_lines sample_lib plain_file (chunk_plan (length plain_file) 4 ! 3)) =
       min (chunk_size_of (length plain_file) 4)
         (length plain_file - 3 * chunk_size_of (length plain_file) 4)
   \<and> (4 - 1) * chunk_size_of (length plain_file) 4 \<le> length plain_file
   \<and> card (worker_lines sample_lib plain_file (chunk_plan (length plain_file) 4 ! 0)) =
       chunk_size_of (length plain_file) 4
   \<and> card (worker_lines sample_lib plain_file (chunk_plan (length plain_file) 4 ! (4 - 1))) =
       length plain_file - (4 - 1) * chunk_size_of (length plain_file) 4"
proof -
  have n: "100000 \<le> length plain_file" by (simp add: plain_file_facts(1))
  have N: "(2::nat) \<le> 4" by simp
  have i: "(3::nat) < 4" "(0::nat) < 4 - 1"
    "(4 - 1) * chunk_size_of (length plain_file) 4 \<le> length plain_file"
    by (simp_all add: chunk_size_of_def plain_file_facts(1))
  note c = chunk_sizes [where fs = big_fs and p = "''plain.csv''" and lines = plain_file
      and L = sample_lib and N = 4 and f = jan1 and t = jan3
      and g = "''1day''" and d = "[''user'']" and uf = None and af = None,
      OF big_fs_lookup(1) n N plain_file_facts(2)]
  note c1 = c [THEN conjunct1]
  note c2 = c [THEN conjunct2, THEN conjunct1]
  note c3 = c [THEN conjunct2, THEN conjunct2, THEN conjunct1, rule_format, OF i(1),
      THEN conjunct2, THEN conjunct1]
  note c4 = c [THEN conjunct2, THEN conjunct2, THEN conjunct2, THEN mp, OF i(3)]
  note c4a = c4 [THEN conjunct1, rule_format, OF i(2)]
  note c4b = c4 [THEN conjunct2]
  show ?thesis
    by (intro conjI) (rule big_fs_lookup(1), rule n, rule plain_file_facts(2), rule c1,
      rule c2, rule c3, rule i(3), rule c4a, rule c4b)
qed

text \<open>
  C7. Missing-file tolerance. Let a day of the queried range have no log file, let the
  scheduler complete the workers of the existing files in any order, and let each of those
  workers return. Then the engine returns: its table is the element-wise sum of the tables
  of the existing files only, rowsMatched is the sum of their row counts, and
  filesProcessed is the number of existing files, which leaves the missing day out. The
  worker run on the missing file would return the empty table and 0 rows, and the reader
  of myscript.py yields nothing for it and raises nothing.
\<close>

theorem missing_file_tolerance:
  assumes dates: "get_date_range L f t = Inr dates" and nt: "0 < nt"
    and day: "d \<in> set dates" and missing: "fs (log_path dir d) = None"
    and order: "mset order = mset [0..<length (existing_days fs dir dates)]"
    and ok: "\<forall>d' \<in> set (existing_days fs dir dates).
               \<exists>pr. process_file_chunk L fs (log_path dir d') f t g dims uf af 0 None = Inr pr"
  shows "\<exists>prs T.
       map (\<lambda>d'. process_file_chunk L fs (log_path dir d') f t g dims uf af 0 None)
           (existing_days fs dir dates) = map Inr prs
     \<and> aggregate_data_parallel L fs dir order f t g dims uf af nt =
         Inr (T, sum_list (map snd prs), length (existing_days fs dir dates))
     \<and> map_of T = merge_spec (map fst prs)
     \<and> d \<notin> set (existing_days fs dir dates)
     \<and> length (existing_days fs dir dates) < length dates
     \<and> process_file_chunk L fs (log_path dir d) f t g dims uf af 0 None = Inr ([], 0)
     \<and> read_log_file L fs (log_path dir d) f t uf af = ([], None)"
proof -
  let ?ex = "existing_days fs dir dates"
  let ?em = "\<lambda>d. emitted L f t g dims (filter_set uf) (filter_set af) (file_rows L fs (log_path dir d))"
  let ?pr = "\<lambda>d. (merge_partial [] (?em d), length (?em d))"
  from day have ne: "dates \<noteq> []" by auto
  from ok have "\<forall>d' \<in> set ?ex.
      first_raise L f t g dims (filter_set uf) (filter_set af) (file_rows L fs (log_path dir d')) = None"
    by (auto simp: process_file_chunk_whole split: option.splits)
  then have "first_raise L f t g dims (filter_set uf) (filter_set af) (all_rows L fs dir ?ex) = None"
    by (simp add: all_rows_def first_raise_concat_None)
  then have quiet: "first_raise L f t g dims (filter_set uf) (filter_set af) (all_rows L fs dir dates) = None"
    by (simp only: all_rows_existing)
  from engine_Inr_char [OF dates nt ne order quiet] obtain T where
    futs: "map (\<lambda>d'. process_file_chunk L fs (log_path dir d') f t g dims uf af 0 None) ?ex =
        map Inr (map ?pr ?ex)"
    and run: "aggregate_data_parallel L fs dir order f t g dims uf af nt =
        Inr (T, length (emitted L f t g dims (filter_set uf) (filter_set af) (all_rows L fs dir dates)),
             length ?ex)"
    and spec: "map_of T = merge_spec (map (\<lambda>d. merge_partial [] (?em d)) ?ex)"
    by blast
  have "sum_list (map snd (map ?pr ?ex)) =
      length (emitted L f t g dims (filter_set uf) (filter_set af) (all_rows L fs dir ?ex))"
    by (simp add: all_rows_def emitted_concat length_concat comp_def)
  then have rows: "length (emitted L f t g dims (filter_set uf) (filter_set af) (all_rows L fs dir dates)) =
      sum_list (map snd (map ?pr ?ex))"
    by (simp only: all_rows_existing)
  have run': "aggregate_data_parallel L fs dir order f t g dims uf af nt =
      Inr (T, sum_list (map snd (map ?pr ?ex)), length ?ex)"
    using run by (simp only: rows)
  have spec': "map_of T = merge_spec (map fst (map ?pr ?ex))"
    using spec by (simp add: comp_def)
  have absent: "d \<notin> set ?ex" using missing by (simp add: existing_days_def)
  have fewer: "length ?ex < length dates"
    unfolding existing_days_def using day by (rule length_filter_less) (simp add: missing)
  have chunk: "process_file_chunk L fs (log_path dir d) f t g dims uf af 0 None = Inr ([], 0)"
    using missing by (simp add: process_file_chunk_def)
  have reader: "read_log_file L fs (log_path dir d) f t uf af = ([], None)"
    using missing by (simp add: read_log_file_def)
  show ?thesis
    by (intro exI [of _ "map ?pr ?ex"] exI [of _ T] conjI)
      (rule futs, rule run', rule spec', rule absent, rule fewer, rule chunk, rule reader)
qed

theorem missing_file_tolerance_witness:
  "\<exists>prs T.
       map (\<lambda>d'. process_file_chunk sample_lib sample_fs (log_path ''logs'' d') jan1 jan3 ''1day''
                   [''user''] None None 0 None)
           (existing_days sample_fs ''logs'' [''2025-01-01'', ''2025-01-02'', ''2025-01-03''])
         = map Inr prs
     \<and> aggregate_data_parallel sample_lib sample_fs ''logs'' [1, 0] jan1 jan3 ''1day'' [''user'']
           None None 4 =
         Inr (T, sum_list (map snd prs),
              length (existing_days sample_fs ''logs'' [''2025-01-01'', ''2025-01-02'', ''2025-01-03'']))
     \<and> map_of T = merge_spec (map fst prs)
     \<and> ''2025-01-02'' \<notin> set (existing_days sample_fs ''logs''
                               [''2025-01-01'', ''2025-01-02'', ''2025-01-03''])
     \<and> length (existing_days sample_fs ''logs'' [''2025-01-01'', ''2025-01-02'', ''2025-01-03''])
         < length [''2025-01-01'', ''2025-01-02'', ''2025-01-03'']
     \<and> process_file_chunk sample_lib sample_fs (log_path ''logs'' ''2025-01-02'') jan1 jan3 ''1day''
           [''user''] None None 0 None = Inr ([], 0)
     \<and> read_log_file sample_lib sample_fs (log_path ''logs'' ''2025-01-02'') jan1 jan3 None None
         = ([], None)"
proof -
  have nt: "(0::nat) < 4" by simp
  have day: "''2025-01-02'' \<in> set [''2025-01-01'', ''2025-01-02'', ''2025-01-03'']" by simp
  have missing: "sample_fs (log_path ''logs'' ''2025-01-02'') = None"
    by (simp add: sample_fs_def log_path_def)
  have ok: "\<forall>d' \<in> set (existing_days sample_fs ''logs''
                          [''2025-01-01'', ''2025-01-02'', ''2025-01-03'']).
      \<exists>pr. process_file_chunk sample_lib sample_fs (log_path ''logs'' d') jan1 jan3 ''1day''
             [''user''] None None 0 None = Inr pr"
    unfolding sample_existing by (simp add: engine_simps sample_simps)
  show ?thesis
    by (rule missing_file_tolerance [OF sample_dates nt day missing sample_order ok])
qed

text \<open>
  C9. rowsMatched is a post-filter count. Whenever the engine returns a table \<open>T\<close> with
  rowsMatched \<open>R\<close>, \<open>R\<close> is the number of rows, over all files of the range, that pass the
  field-count, user-filter, app-filter, timestamp and time-window checks; it is the sum
  over the keys of \<open>T\<close> of the number of accepted rows that carry the key; the keys of \<open>T\<close>
  are the keys of the accepted rows; and \<open>R\<close> is at most the number of rows scanned.
\<close>

theorem rows_matched_post_filter:
  assumes run: "aggregate_data_parallel L fs dir order f t g dims uf af nt = Inr (T, R, n)"
    and dates: "get_date_range L f t = Inr dates"
    and order: "mset order = mset [0..<length (existing_days fs dir dates)]"
  shows "R = length (filter (passes L f t (filter_set uf) (filter_set af)) (all_rows L fs dir dates))
       \<and> R = (\<Sum>k \<in> fst ` set T.
                 count_list (map fst (emitted L f t g dims (filter_set uf) (filter_set af)
                   (all_rows L fs dir dates))) k)
       \<and> fst ` set T =
           fst ` set (emitted L f t g dims (filter_set uf) (filter_set af) (all_rows L fs dir dates))
       \<and> R \<le> length (all_rows L fs dir dates)"
proof -
  let ?rows = "all_rows L fs dir dates"
  let ?es = "emitted L f t g dims (filter_set uf) (filter_set af) ?rows"
  from run dates have nt: "0 < nt" and ne: "dates \<noteq> []"
    using engine_ok_range by blast+
  have "\<not> (\<exists>e. aggregate_data_parallel L fs dir order f t g dims uf af nt = Inl e)"
    using run by simp
  then have "\<not> (\<exists>r \<in> set ?rows. \<exists>e.
      chunk_row L f t g dims (filter_set uf) (filter_set af) r = Raise e)"
    using engine_Inl_iff [OF dates nt ne order, of g dims uf af] by blast
  then have quiet: "first_raise L f t g dims (filter_set uf) (filter_set af) ?rows = None"
    using first_raise_Some_iff [of L f t g dims "filter_set uf" "filter_set af" ?rows]
    by (cases "first_raise L f t g dims (filter_set uf) (filter_set af) ?rows") auto
  from engine_Inr_char [OF dates nt ne order quiet] run
  have R: "R = length ?es" and keys: "fst ` set T = fst ` set ?es"
    by auto
  have a: "R = length (filter (passes L f t (filter_set uf) (filter_set af)) ?rows)"
    using R emitted_passes [OF quiet] by simp
  have "sum (count_list (map fst ?es)) (fst ` set T) = length (map fst ?es)"
    by (rule sum_count_set) (simp_all add: keys)
  then have b: "R = (\<Sum>k \<in> fst ` set T. count_list (map fst ?es) k)"
    using R by simp
  have c: "R \<le> length ?rows" unfolding a by (rule length_filter_le)
  from a b keys c show ?thesis by blast
qed

theorem rows_matched_post_filter_witness:
  "1 = length (filter (passes sample_lib jan1 jan3 (filter_set None) (filter_set None))
                 (all_rows sample_lib sample_fs ''logs'' [''2025-01-01'', ''2025-01-02'', ''2025-01-03'']))
   \<and> 1 = (\<Sum>k \<in> fst ` set [([''2025-01-01 00:00:00'', ''u1''], [1, 1, 1, 1, 1, 1, 1, 1, 1::int])].
            count_list (map fst (emitted sample_lib jan1 jan3 ''1day'' [''user'']
              (filter_set None) (filter_set None)
              (all_rows sample_lib sample_fs ''logs'' [''2025-01-01'', ''2025-01-02'', ''2025-01-03'']))) k)
   \<and> fst ` set [([''2025-01-01 00:00:00'', ''u1''], [1, 1, 1, 1, 1, 1, 1, 1, 1::int])] =
       fst ` set (emitted sample_lib jan1 jan3 ''1day'' [''user''] (filter_set None) (filter_set None)
         (all_rows sample_lib sample_fs ''logs'' [''2025-01-01'', ''2025-01-02'', ''2025-01-03'']))
   \<and> 1 \<le> length (all_rows sample_lib sample_fs ''logs'' [''2025-01-01'', ''2025-01-02'', ''2025-01-03''])"
  by (rule rows_matched_post_filter [OF sample_run sample_dates sample_order])

text \<open>
  C6, as stated, fails: with the invalid granularity \<^verbatim>\<open>'1h'\<close> and a user filter that no row
  passes the engine returns the empty table, 0 rows and 2 files; with an empty dimension
  list it returns a table whose keys are the period alone.
\<close>

theorem caller_error_counterexample:
  "aggregate_data_parallel sample_lib sample_fs ''logs'' [1, 0] jan1 jan3 ''1h'' [''user'']
       (Some [''nobody'']) None 4 = Inr ([], 0, 2)
   \<and> aggregate_data_parallel sample_lib sample_fs ''logs'' [1, 0] jan1 jan3 ''1day'' []
       None None 4 = Inr ([([''2025-01-01 00:00:00''], [1, 1, 1, 1, 1, 1, 1, 1, 1])], 1, 2)"
  by (simp only: aggregate_data_parallel_def sample_dates) (simp add: engine_simps sample_simps)

text \<open>
  C6, amended. With a granularity other than \<^verbatim>\<open>'30m'\<close> and \<^verbatim>\<open>'1day'\<close> (and a non-empty date
  range, a positive worker count and any completion order) the engine aborts with the
  invalid-granularity error exactly when some row of some file of the range passes the
  filter checks; otherwise it returns the empty table, 0 rows and the number of existing
  files. An empty dimension list is no error: with it the engine raises exactly when a row
  that passes the checks meets an invalid granularity or holds a malformed metric, and
  every row does what it does under any other dimension list, its key cut down to the
  period.
\<close>

theorem invalid_granularity_and_empty_dimensions:
  assumes dates: "get_date_range L f t = Inr dates" and nt: "0 < nt" and ne: "dates \<noteq> []"
    and order: "mset order = mset [0..<length (existing_days fs dir dates)]"
    and g: "g \<noteq> ''30m''" "g \<noteq> ''1day''"
  shows "aggregate_data_parallel L fs dir order f t g dims uf af nt =
           (if \<exists>r \<in> set (all_rows L fs dir dates). passes L f t (filter_set uf) (filter_set af) r
            then Inl (InvalidGranularity g)
            else Inr ([], 0, length (existing_days fs dir dates)))
       \<and> ((\<exists>e. aggregate_data_parallel L fs dir order f t g' [] uf af nt = Inl e) \<longleftrightarrow>
            (\<exists>r \<in> set (all_rows L fs dir dates).
               passes L f t (filter_set uf) (filter_set af) r \<and>
               ((g' \<noteq> ''30m'' \<and> g' \<noteq> ''1day'') \<or> malformed_metric L r)))
       \<and> chunk_row L f t g' [] us as r' =
           (case chunk_row L f t g' dims us as r' of
              Continue \<Rightarrow> Continue
            | Emit (k, ms) \<Rightarrow> Emit (take 1 k, ms)
            | Raise e \<Rightarrow> Raise e)"
proof -
  let ?rows = "all_rows L fs dir dates"
  let ?P = "passes L f t (filter_set uf) (filter_set af)"
  have step: "chunk_row L f t g dims (filter_set uf) (filter_set af) r =
      (if ?P r then Raise (InvalidGranularity g) else Continue)" for r
    using g by (rule chunk_row_invalid_granularity)
  have first: "aggregate_data_parallel L fs dir order f t g dims uf af nt =
      (if \<exists>r \<in> set ?rows. ?P r then Inl (InvalidGranularity g)
       else Inr ([], 0, length (existing_days fs dir dates)))"
  proof (cases "\<exists>r \<in> set ?rows. ?P r")
    case True
    then have "\<exists>r \<in> set ?rows. \<exists>e.
        chunk_row L f t g dims (filter_set uf) (filter_set af) r = Raise e"
      by (simp add: step)
    then obtain e where e: "aggregate_data_parallel L fs dir order f t g dims uf af nt = Inl e"
      using engine_Inl_iff [OF dates nt ne order, of g dims uf af] by blast
    from engine_Inl_mem [OF dates nt ne order e] have "e = InvalidGranularity g"
      by (auto simp: step split: if_splits)
    with e True show ?thesis by simp
  next
    case False
    then have none: "\<forall>r \<in> set ?rows. chunk_row L f t g dims (filter_set uf) (filter_set af) r = Continue"
      by (simp add: step)
    then have quiet: "first_raise L f t g dims (filter_set uf) (filter_set af) ?rows = None"
      using first_raise_Some_iff [of L f t g dims "filter_set uf" "filter_set af" ?rows]
      by (cases "first_raise L f t g dims (filter_set uf) (filter_set af) ?rows") auto
    from none have em: "emitted L f t g dims (filter_set uf) (filter_set af) ?rows = []"
      by (intro emitted_empty) simp
    from engine_Inr_char [OF dates nt ne order quiet] obtain T where
      "aggregate_data_parallel L fs dir order f t g dims uf af nt =
         Inr (T, length (emitted L f t g dims (filter_set uf) (filter_set af) ?rows),
              length (existing_days fs dir dates))"
      and "fst ` set T = fst ` set (emitted L f t g dims (filter_set uf) (filter_set af) ?rows)"
      by blast
    with em False show ?thesis by simp
  qed
  have second: "(\<exists>e. aggregate_data_parallel L fs dir order f t g' [] uf af nt = Inl e) \<longleftrightarrow>
      (\<exists>r \<in> set ?rows. ?P r \<and> ((g' \<noteq> ''30m'' \<and> g' \<noteq> ''1day'') \<or> malformed_metric L r))"
    unfolding engine_Inl_iff [OF dates nt ne order] chunk_row_Raise_iff ..
  show ?thesis
    by (intro conjI) (rule first, rule second, rule chunk_row_no_dimensions)
qed

theorem invalid_granularity_and_empty_dimensions_witness:
  "aggregate_data_parallel sample_lib sample_fs ''logs'' [1, 0] jan1 jan3 ''1h'' [''user'']
       None None 4 = Inl (InvalidGranularity ''1h'')
   \<and> aggregate_data_parallel sample_lib sample_fs ''logs'' [1, 0] jan1 jan3 ''1h'' [''user'']
       (Some [''nobody'']) None 4 = Inr ([], 0, 2)
   \<and> \<not> (\<exists>e. aggregate_data_parallel sample_lib sample_fs ''logs'' [1, 0] jan1 jan3 ''1day'' []
              None None 4 = Inl e)
   \<and> chunk_row sample_lib jan1 jan3 ''1day'' [] None None row_u1_1 =
       Emit ([''2025-01-01 00:00:00''], [1, 1, 1, 1, 1, 1, 1, 1, 1])"
proof -
  have nt: "(0::nat) < 4" by simp
  have ne: "[''2025-01-01'', ''2025-01-02'', ''2025-01-03''] \<noteq> []" by simp
  have g: "''1h'' \<noteq> ''30m''" "''1h'' \<noteq> ''1day''" by simp_all
  note a = invalid_granularity_and_empty_dimensions
    [OF sample_dates nt ne sample_order g, of "[''user'']" None None "''1day''"
       None None row_u1_1, unfolded sample_all_rows sample_existing]
  note b = invalid_granularity_and_empty_dimensions
    [OF sample_dates nt ne sample_order g, of "[''user'']" "Some [''nobody'']" None
       "''1day''" None None row_u1_1, unfolded sample_all_rows sample_existing]
  have p: "passes sample_lib jan1 jan3 (filter_set None) (filter_set None) row_u1_1"
    by (simp add: passes_def in_window_def filter_set_def sample_simps)
  have q: "\<not> passes sample_lib jan1 jan3 (filter_set (Some [''nobody''])) (filter_set None) r"
    if "r \<in> set [row_u1_1, row_short, row_at_to]" for r
    using that by (auto simp: passes_def in_window_def filter_set_def sample_simps)
  have nm: "\<not> malformed_metric sample_lib row_u1_1"
    using parse_metrics_Inl_iff [of sample_lib row_u1_1] by (simp add: sample_simps)
  have np: "\<not> passes sample_lib jan1 jan3 (filter_set None) (filter_set None) row_short"
    "\<not> passes sample_lib jan1 jan3 (filter_set None) (filter_set None) row_at_to"
    by (simp_all add: passes_def in_window_def filter_set_def sample_simps)
  have m: "\<not> (passes sample_lib jan1 jan3 (filter_set None) (filter_set None) r \<and>
      ((''1day'' \<noteq> ''30m'' \<and> ''1day'' \<noteq> ''1day'') \<or> malformed_metric sample_lib r))"
    if "r \<in> set [row_u1_1, row_short, row_at_to]" for r
    using that nm np by auto
  have c1: "aggregate_data_parallel sample_lib sample_fs ''logs'' [1, 0] jan1 jan3 ''1h'' [''user'']
       None None 4 = Inl (InvalidGranularity ''1h'')"
    using a [THEN conjunct1] p by auto
  have c2: "aggregate_data_parallel sample_lib sample_fs ''logs'' [1, 0] jan1 jan3 ''1h'' [''user'']
       (Some [''nobody'']) None 4 = Inr ([], 0, 2)"
    using b [THEN conjunct1] q by auto
  have c3: "\<not> (\<exists>e. aggregate_data_parallel sample_lib sample_fs ''logs'' [1, 0] jan1 jan3 ''1day'' []
              None None 4 = Inl e)"
    using a [THEN conjunct2, THEN conjunct1] m by blast
  have "chunk_row sample_lib jan1 jan3 ''1day'' [''user''] None None row_u1_1 =
      Emit ([''2025-01-01 00:00:00'', ''u1''], [1, 1, 1, 1, 1, 1, 1, 1, 1])"
    by (simp add: sample_simps)
  with a [THEN conjunct2, THEN conjunct2]
  have c4: "chunk_row sample_lib jan1 jan3 ''1day'' [] None None row_u1_1 =
       Emit ([''2025-01-01 00:00:00''], [1, 1, 1, 1, 1, 1, 1, 1, 1])"
    by simp
  show ?thesis by (intro conjI) (rule c1, rule c2, rule c3, rule c4)
qed

text \<open>
  C8. Emitter order and shape. For a final table (unique keys, vectors of nine entries)
  the rows handed to the writer are, in this order, the keys of the table sorted strictly
  ascending in the lexicographic order of the key tuples (the period string first, then
  the remaining key fields), each row being the fields of its key followed by the nine
  metric values of that key in their order; the header names the selected dimensions
  between \<^verbatim>\<open>timestamp\<close> and the metric columns. The output depends on the table as a
  dictionary and on the dimensions only: two tables with the same entries, in whatever
  insertion order the workers' schedule left them, give the same output.
\<close>

theorem emitter_order_and_shape:
  assumes "wf_table t" and "wf_table t'" and "map_of t = map_of t'"
  shows "write_results t dims = write_results t' dims
       \<and> snd (write_results t dims) =
           map (\<lambda>k. map Str k @ map Num (the (map_of t k)))
               (sorted_list_of_set (dom (map_of t)))
       \<and> set (sorted_list_of_set (dom (map_of t))) = fst ` set t
       \<and> sorted_wrt (<) (sorted_list_of_set (dom (map_of t)))
       \<and> list_all (\<lambda>k. length (the (map_of t k)) = 9) (sorted_list_of_set (dom (map_of t)))
       \<and> fst (write_results t dims) =
           [''timestamp''] @ (if ''user'' \<in> set dims then [''user''] else [])
             @ (if ''app'' \<in> set dims then [''app''] else []) @ METRIC_COLUMNS
       \<and> ((p # ks :: key) < p' # ks' \<longleftrightarrow> p < p' \<or> p = p' \<and> ks < ks')"
proof -
  have fin: "finite (dom (map_of t))" by (rule finite_dom_map_of)
  from assms(1,2) have d: "distinct (map fst t)" "distinct (map fst t')"
    by (simp_all add: wf_table_def)
  have rows: "snd (write_results t dims) =
      map (\<lambda>k. map Str k @ map Num (the (map_of t k))) (sorted_list_of_set (dom (map_of t)))"
    using d(1) by (rule write_results_rows)
  have rows': "snd (write_results t' dims) =
      map (\<lambda>k. map Str k @ map Num (the (map_of t k))) (sorted_list_of_set (dom (map_of t)))"
    using write_results_rows [OF d(2), of dims] by (simp only: assms(3))
  have hdr: "fst (write_results t dims) = fst (write_results t' dims)"
    by (simp add: write_results_def Let_def)
  have same: "write_results t dims = write_results t' dims"
    using rows rows' hdr by (simp add: prod_eq_iff)
  have keys: "set (sorted_list_of_set (dom (map_of t))) = fst ` set t"
    using fin by (simp add: dom_map_of_conv_image_fst)
  have strict: "sorted_wrt (<) (sorted_list_of_set (dom (map_of t)))"
    by (rule strict_sorted_list_of_set)
  have nine: "list_all (\<lambda>k. length (the (map_of t k)) = 9) (sorted_list_of_set (dom (map_of t)))"
    using fin assms(1) by (auto simp: list_all_iff dest: wf_table_lookup)
  have header: "fst (write_results t dims) =
      [''timestamp''] @ (if ''user'' \<in> set dims then [''user''] else [])
        @ (if ''app'' \<in> set dims then [''app''] else []) @ METRIC_COLUMNS"
    by (simp add: write_results_def Let_def)
  have order: "(p # ks :: key) < p' # ks' \<longleftrightarrow> p < p' \<or> p = p' \<and> ks < ks'"
    by (rule Cons_less_Cons)
  show ?thesis
    by (intro conjI) (rule same, rule rows, rule keys, rule strict, rule nine, rule header, rule order)
qed

theorem emitter_order_and_shape_witness:
  "write_results table_b [''user''] =
     ([''timestamp'', ''user'', ''metric_1'', ''metric_2'', ''metric_3'', ''metric_4'',
       ''metric_5'', ''metric_6'', ''metric_7'', ''metric_8'', ''metric_9''],
      [[Str ''2025-01-01 00:00:00'', Str ''u2'',
        Num 1, Num 1, Num 1, Num 1, Num 1, Num 1, Num 1, Num 1, Num 1],
       [Str ''2025-01-02 00:00:00'', Str ''u1'',
        Num 2, Num 2, Num 2, Num 2, Num 2, Num 2, Num 2, Num 2, Num 2]])
   \<and> sorted_wrt (<) (sorted_list_of_set (dom (map_of table_a)))
   \<and> list_all (\<lambda>k. length (the (map_of table_a k)) = 9)
        (sorted_list_of_set (dom (map_of table_a)))"
proof -
  note c = emitter_order_and_shape [OF sample_tables, of "[''user'']"]
  have "write_results table_b [''user''] = write_results table_a [''user'']"
    using c [THEN conjunct1] by simp
  then have a: "write_results table_b [''user''] =
     ([''timestamp'', ''user'', ''metric_1'', ''metric_2'', ''metric_3'', ''metric_4'',
       ''metric_5'', ''metric_6'', ''metric_7'', ''metric_8'', ''metric_9''],
      [[Str ''2025-01-01 00:00:00'', Str ''u2'',
        Num 1, Num 1, Num 1, Num 1, Num 1, Num 1, Num 1, Num 1, Num 1],
       [Str ''2025-01-02 00:00:00'', Str ''u1'',
        Num 2, Num 2, Num 2, Num 2, Num 2, Num 2, Num 2, Num 2, Num 2]])"
    by (simp only: sample_output)
  note b = c [THEN conjunct2, THEN conjunct2, THEN conjunct2, THEN conjunct1]
  note d = c [THEN conjunct2, THEN conjunct2, THEN conjunct2, THEN conjunct2, THEN conjunct1]
  show ?thesis by (intro conjI) (rule a, rule b, rule d)
qed

end
